(* ===== verification/Prelude.thy ===== *)
theory Prelude
  imports Main "HOL-Library.Word"
begin

unbundle bit_operations_syntax

text \<open>
  Shared vocabulary of the development: the machine types of the flash
  algorithm (\<open>unsigned long\<close> is 32 bits on the Cortex-M7 target, bytes are
  \<open>unsigned char\<close>), the error values that stand for the undefined or
  out-of-contract behaviours of the C code, the C semantics of copying a byte
  run to the start of a fixed-size array, and the generic lemmas on words,
  lists and \<^const>\<open>find\<close> that the component theories share.
\<close>

type_synonym u8 = "8 word"
type_synonym u32 = "32 word"

text \<open>The contents of the serial NOR flash, by 32-bit device offset.\<close>

type_synonym flash_mem = "u32 \<Rightarrow> u8"

text \<open>
  Errors of the model. None of them is a return code of the C code: each is a
  behaviour outside the C semantics or outside the driver's contract.
  \<^item> \<open>Chip_not_ready\<close>: a chip command issued before \<open>W25QXX_Init\<close> configured the
    QSPI interface in this reset cycle;
  \<^item> \<open>Aux_buf_overflow\<close>: a write past the end of a fixed-size C array;
  \<^item> \<open>Host_buf_overread\<close>: a read past the end of the buffer the host passed in.
\<close>

datatype flash_error = Chip_not_ready | Aux_buf_overflow | Host_buf_overread

named_theorems flash_simps "characteristic equations of the flash model"

text \<open>
  \<open>store_prefix data dst\<close> is the effect of a driver filling the first
  \<open>length data\<close> bytes of the C array \<open>dst\<close>: the rest of the array keeps its old
  contents, and a run longer than the array overflows it.
\<close>

definition store_prefix :: "'a list \<Rightarrow> 'a list \<Rightarrow> flash_error + 'a list" where
  "store_prefix data dst =
     (if length dst < length data then Inl Aux_buf_overflow
      else Inr (data @ drop (length data) dst))"

subsection \<open>Copying into a fixed array\<close>

lemma store_prefix_Inr_iff [flash_simps]:
  "store_prefix data dst = Inr r \<longleftrightarrow>
     length data \<le> length dst \<and> r = data @ drop (length data) dst"
  by (auto simp: store_prefix_def)

lemma store_prefix_Inl_iff [flash_simps]:
  "store_prefix data dst = Inl e \<longleftrightarrow> length dst < length data \<and> e = Aux_buf_overflow"
  by (auto simp: store_prefix_def)

lemma store_prefix_again:
  "store_prefix data dst = Inr r \<Longrightarrow> store_prefix data r = Inr r"
  by (auto simp: store_prefix_def split: if_splits)

lemma length_store_prefix:
  "store_prefix data dst = Inr r \<Longrightarrow> length r = length dst"
  by (auto simp: store_prefix_def split: if_splits)

lemma nth_store_prefix:
  assumes "store_prefix data dst = Inr r" and "i < length dst"
  shows "r ! i = (if i < length data then data ! i else dst ! i)"
  using assms by (auto simp: store_prefix_def nth_append split: if_splits)

subsection \<open>Results\<close>

lemma map_sum_apfst_Inr_iff [flash_simps]:
  "map_sum id (apfst f) x = Inr (r, s') \<longleftrightarrow> (\<exists>r0. x = Inr (r0, s') \<and> r = f r0)"
  by (cases x) auto

lemma map_sum_id_Inl_iff [flash_simps]:
  "map_sum id g x = Inl e \<longleftrightarrow> x = Inl e"
  by (cases x) auto

subsection \<open>Words\<close>

lemma word_sub_left_cancel [simp]:
  "(a::'a::len word) - b = a - c \<longleftrightarrow> b = c"
  by (metis add_diff_cancel_left' diff_add_cancel)

lemma unat_of_nat_below:
  "n < 2 ^ LENGTH('a) \<Longrightarrow> unat (of_nat n :: 'a::len word) = n"
  by (simp add: unat_of_nat)

lemma u8_FF_eq: "(0xFF :: u8) = - 1"
  by simp

lemma and_FF_u8 [simp]: "(0xFF :: u8) AND x = x"
  by (simp only: u8_FF_eq and.left_neutral)

lemma unat_of_nat_lt_unat:
  "i < unat (n::'a::len word) \<Longrightarrow> unat (of_nat i :: 'a word) = i"
proof -
  assume "i < unat n"
  moreover have "unat n < (2::nat) ^ LENGTH('a)"
    by simp
  ultimately have "i < 2 ^ LENGTH('a)"
    by linarith
  then show ?thesis by (simp add: unat_of_nat)
qed

lemma add_of_nat_minus_base [simp]:
  "(a::'a::len word) + of_nat i - a = of_nat i"
  by simp

subsection \<open>Linear search\<close>

text \<open>
  A \<open>for\<close> loop with an early exit is a linear search; \<^const>\<open>find\<close> over an
  index range is its reference definition.
\<close>

lemma find_upt_step:
  "find P [i..<n] = (if i < n then (if P i then Some i else find P [Suc i..<n]) else None)"
  by (simp add: upt_rec)

lemma find_upt_Some_iff:
  "find P [i..<n] = Some j \<longleftrightarrow> i \<le> j \<and> j < n \<and> P j \<and> (\<forall>k. i \<le> k \<longrightarrow> k < j \<longrightarrow> \<not> P k)"
proof (induction "n - i" arbitrary: i)
  case 0
  then show ?case by (simp add: find_upt_step)
next
  case (Suc d)
  then show ?case
    by (auto simp: find_upt_step [of P i n] le_Suc_eq Suc_le_eq dest: le_neq_implies_less)
qed

lemma find_upt_None_iff:
  "find P [i..<n] = None \<longleftrightarrow> (\<forall>k. i \<le> k \<longrightarrow> k < n \<longrightarrow> \<not> P k)"
  by (auto simp: find_None_iff)

lemma find_upt_skip:
  assumes "i \<le> m" and "\<forall>j. i \<le> j \<longrightarrow> j < m \<longrightarrow> \<not> P j"
  shows "find P [i..<n] = find P [m..<n]"
  using assms
proof (induction "m - i" arbitrary: i)
  case 0
  then show ?case by simp
next
  case (Suc d)
  then have "i < m" "\<not> P i" by auto
  moreover have "find P [Suc i..<n] = find P [m..<n]"
    using Suc by auto
  ultimately show ?case
    by (simp add: find_upt_step [of P i n] find_upt_step [of P m n])
qed

end
