(* ===== verification/W25Q.thy ===== *)
theory W25Q
  imports Prelude
begin

unbundle bit_operations_syntax

text \<open>
  The W25Q256 serial NOR flash and its driver \<open>w25qxx.c\<close>, which the flash
  algorithm calls but which is not part of this repository: modelled from the
  capability surface the specification names (initialise, whole-chip erase,
  sector erase, raw page write, buffered read). The chip keeps its array
  contents across MCU resets; the QSPI interface is usable only after
  \<open>W25QXX_Init\<close> in the current reset cycle. Erasing sets bytes to \<open>0xFF\<close>;
  programming a NOR cell can only clear bits, so a written byte becomes the
  bitwise AND of the old contents and the data (the \<open>NoCheck\<close> write does not
  erase first). Sectors are 4 KiB; the chip ignores address bits 11..0 of a
  sector-erase command.
\<close>

record w25q =
  w25q_mem :: flash_mem
  w25q_ready :: bool

definition SECTOR_SIZE :: nat where
  "SECTOR_SIZE = 4096"

definition sector_of :: "u32 \<Rightarrow> u32" where
  "sector_of a = a AND NOT 0xFFF"

definition W25QXX_Init :: "w25q \<Rightarrow> w25q" where
  "W25QXX_Init c = c\<lparr>w25q_ready := True\<rparr>"

definition W25QXX_Erase_Chip :: "w25q \<Rightarrow> flash_error + w25q" where
  "W25QXX_Erase_Chip c =
     (if w25q_ready c then Inr (c\<lparr>w25q_mem := (\<lambda>_. 0xFF)\<rparr>) else Inl Chip_not_ready)"

definition W25QXX_Erase_Sector :: "u32 \<Rightarrow> w25q \<Rightarrow> flash_error + w25q" where
  "W25QXX_Erase_Sector off c =
     (if w25q_ready c
      then Inr (c\<lparr>w25q_mem := (\<lambda>a. if sector_of a = sector_of off then 0xFF else w25q_mem c a)\<rparr>)
      else Inl Chip_not_ready)"

definition W25QXX_Write_NoCheck :: "u8 list \<Rightarrow> u32 \<Rightarrow> u32 \<Rightarrow> w25q \<Rightarrow> flash_error + w25q" where
  "W25QXX_Write_NoCheck buf off n c =
     (if \<not> w25q_ready c then Inl Chip_not_ready
      else if length buf < unat n then Inl Host_buf_overread
      else Inr (c\<lparr>w25q_mem := (\<lambda>a. if unat (a - off) < unat n
                                     then w25q_mem c a AND buf ! unat (a - off)
                                     else w25q_mem c a)\<rparr>))"

definition W25QXX_Read :: "u32 \<Rightarrow> u32 \<Rightarrow> w25q \<Rightarrow> flash_error + u8 list" where
  "W25QXX_Read off n c =
     (if w25q_ready c then Inr (map (\<lambda>i. w25q_mem c (off + of_nat i)) [0..<unat n])
      else Inl Chip_not_ready)"

text \<open>The \<open>n\<close> bytes from offset \<open>off\<close> on are erased.\<close>

definition erased_region :: "flash_mem \<Rightarrow> u32 \<Rightarrow> nat \<Rightarrow> bool" where
  "erased_region m off n \<longleftrightarrow> (\<forall>i < n. m (off + of_nat i) = 0xFF)"

subsection \<open>Characteristic equations\<close>

lemma W25QXX_Erase_Chip_Inr_iff [flash_simps]:
  "W25QXX_Erase_Chip c = Inr c' \<longleftrightarrow> w25q_ready c \<and> c' = c\<lparr>w25q_mem := (\<lambda>_. 0xFF)\<rparr>"
  by (auto simp: W25QXX_Erase_Chip_def)

lemma W25QXX_Erase_Sector_Inr_iff [flash_simps]:
  "W25QXX_Erase_Sector off c = Inr c' \<longleftrightarrow> w25q_ready c \<and>
     c' = c\<lparr>w25q_mem := (\<lambda>a. if sector_of a = sector_of off then 0xFF else w25q_mem c a)\<rparr>"
  by (auto simp: W25QXX_Erase_Sector_def)

lemma W25QXX_Write_NoCheck_Inr_iff [flash_simps]:
  "W25QXX_Write_NoCheck buf off n c = Inr c' \<longleftrightarrow> w25q_ready c \<and> unat n \<le> length buf \<and>
     c' = c\<lparr>w25q_mem := (\<lambda>a. if unat (a - off) < unat n
                               then w25q_mem c a AND buf ! unat (a - off) else w25q_mem c a)\<rparr>"
  by (auto simp: W25QXX_Write_NoCheck_def)

lemma W25QXX_Read_Inr_iff [flash_simps]:
  "W25QXX_Read off n c = Inr bs \<longleftrightarrow>
     w25q_ready c \<and> bs = map (\<lambda>i. w25q_mem c (off + of_nat i)) [0..<unat n]"
  by (auto simp: W25QXX_Read_def)

lemma W25QXX_not_ready [flash_simps]:
  assumes "\<not> w25q_ready c"
  shows "W25QXX_Erase_Chip c = Inl Chip_not_ready"
    and "W25QXX_Erase_Sector off c = Inl Chip_not_ready"
    and "W25QXX_Write_NoCheck buf off n c = Inl Chip_not_ready"
    and "W25QXX_Read off n c = Inl Chip_not_ready"
  using assms
  by (simp_all add: W25QXX_Erase_Chip_def W25QXX_Erase_Sector_def
      W25QXX_Write_NoCheck_def W25QXX_Read_def)

lemma W25QXX_ready [flash_simps]:
  assumes "w25q_ready c"
  shows "\<exists>c'. W25QXX_Erase_Chip c = Inr c'"
    and "\<exists>c'. W25QXX_Erase_Sector off c = Inr c'"
    and "unat n \<le> length buf \<Longrightarrow> \<exists>c'. W25QXX_Write_NoCheck buf off n c = Inr c'"
    and "\<exists>bs. W25QXX_Read off n c = Inr bs"
  using assms
  by (simp_all add: W25QXX_Erase_Chip_def W25QXX_Erase_Sector_def
      W25QXX_Write_NoCheck_def W25QXX_Read_def)

subsection \<open>Sector addresses\<close>

lemma mask12_u32: "(0xFFF :: u32) = mask 12"
  by (simp add: mask_eq_exp_minus_1)

lemma sector_of_push_drop: "sector_of a = push_bit 12 (drop_bit 12 a)"
  unfolding sector_of_def mask12_u32
  by (rule bit_eqI) (auto simp: bit_simps)

lemma unat_sector_of: "unat (sector_of a) = unat a div SECTOR_SIZE * SECTOR_SIZE"
proof -
  have d: "unat (a div 4096) = unat a div 4096"
    by (simp add: unat_div)
  have "unat a div 4096 * 4096 \<le> unat a"
    by simp
  then have lt: "unat (a div 4096) * unat (4096::u32) < 2 ^ LENGTH(32)"
    using unsigned_less[of a, where ?'a = nat] d by simp
  have "unat (a div 4096 * 4096) = unat a div 4096 * 4096"
    using unat_mult_lem [THEN iffD1, OF lt] d by simp
  then show ?thesis
    by (simp add: sector_of_push_drop push_bit_eq_mult drop_bit_eq_div SECTOR_SIZE_def)
qed

lemma sector_of_idem [simp]: "sector_of (sector_of a) = sector_of a"
  by (simp add: sector_of_def and.assoc)

text \<open>Every byte of the 4 KiB sector that starts at a sector base lies in that sector.\<close>

lemma sector_of_base_plus:
  assumes base: "sector_of off = off" and i: "i < SECTOR_SIZE"
  shows "sector_of (off + of_nat i) = off"
proof -
  have e: "unat off = unat off div SECTOR_SIZE * SECTOR_SIZE"
    using unat_sector_of[of off] base by simp
  then have m: "unat off mod SECTOR_SIZE = 0"
    by (metis mod_mult_self2_is_0)
  moreover have "unat off < 2 ^ 32"
    using unsigned_less[of off, where ?'a = nat] by simp
  moreover obtain k where k: "unat off = 4096 * k"
    using m unfolding SECTOR_SIZE_def by (metis mod_eq_0_iff_dvd dvdE)
  ultimately have room: "unat off + i < 2 ^ 32"
    using i unfolding SECTOR_SIZE_def by simp
  then have "unat (off + of_nat i) = unat off + i"
    using i by (simp add: unat_word_ariths unat_of_nat SECTOR_SIZE_def)
  moreover have "(unat off + i) div SECTOR_SIZE = unat off div SECTOR_SIZE"
    using k i by (simp add: SECTOR_SIZE_def)
  ultimately have "unat (sector_of (off + of_nat i)) = unat off div SECTOR_SIZE * SECTOR_SIZE"
    by (simp add: unat_sector_of)
  then have "unat (sector_of (off + of_nat i)) = unat off"
    using e by simp
  then show ?thesis
    by (simp add: word_unat_eq_iff)
qed

subsection \<open>Erase and program\<close>

lemma W25QXX_program_erased_read:
  assumes ready: "w25q_ready c" and len: "unat n \<le> length buf"
    and erased: "erased_region (w25q_mem c) off (unat n)"
  shows "\<exists>c'. W25QXX_Write_NoCheck buf off n c = Inr c' \<and>
              W25QXX_Read off n c' = Inr (take (unat n) buf)"
proof -
  obtain c' where w: "W25QXX_Write_NoCheck buf off n c = Inr c'"
    using W25QXX_ready(3)[OF ready len] by blast
  have "map (\<lambda>i. w25q_mem c' (off + of_nat i)) [0..<unat n] = take (unat n) buf"
  proof (rule nth_equalityI)
    fix i assume "i < length (map (\<lambda>i. w25q_mem c' (off + of_nat i)) [0..<unat n])"
    then have i: "i < unat n" by simp
    then show "map (\<lambda>i. w25q_mem c' (off + of_nat i)) [0..<unat n] ! i = take (unat n) buf ! i"
      using w erased len by (auto simp: flash_simps erased_region_def unat_of_nat_lt_unat)
  qed (use len in simp)
  with w ready show ?thesis
    by (auto simp: flash_simps)
qed
lemma W25QXX_Erase_Sector_erased:
  assumes "W25QXX_Erase_Sector off c = Inr c'" and "sector_of off = off" and "n \<le> SECTOR_SIZE"
  shows "erased_region (w25q_mem c') off n"
  using assms by (auto simp: flash_simps erased_region_def sector_of_base_plus)

end
