(* ===== verification/FlashPrg.thy ===== *)
theory FlashPrg
  imports W25Q
begin

text \<open>
  The programming-algorithm controller of \<open>src/STM32H743_W25Q256/FlashPrg.c\<close>.
  Its globals \<open>aux_buf\<close> and \<open>base_adr\<close> and the chip it drives form the record
  \<open>prg_state\<close>; each entry point the host tool calls (\<open>Init\<close>, \<open>UnInit\<close>,
  \<open>EraseChip\<close>, \<open>EraseSector\<close>, \<open>BlankCheck\<close>, \<open>ProgramPage\<close>, \<open>Verify\<close>) is one
  definition of the same name, taking the state and returning the C return value
  with the new state. Entry points that call the chip return an error value of
  \<^typ>\<open>flash_error\<close> where the C code leaves its semantics or the driver's
  contract. The \<open>for\<close> loop of \<open>Verify\<close> is \<open>verify_scan\<close>.
  The peripheral bring-up that \<open>Init\<close> performs besides \<open>W25QXX_Init\<close> (clock tree,
  delay timer, UART, LED; routines not in the repository) changes nothing this
  model observes and is omitted.
\<close>

definition PAGE_SIZE :: nat where
  "PAGE_SIZE = 4096"

record prg_state =
  aux_buf :: "u8 list"
  base_adr :: u32
  flash :: w25q

text \<open>The device offset \<open>adr-base_adr\<close>, computed in \<open>unsigned long\<close> arithmetic.\<close>

definition dev_offset :: "prg_state \<Rightarrow> u32 \<Rightarrow> u32" where
  "dev_offset s adr = adr - base_adr s"

definition Init :: "u32 \<Rightarrow> u32 \<Rightarrow> u32 \<Rightarrow> prg_state \<Rightarrow> int \<times> prg_state" where
  "Init adr clk fnc s = (0, s\<lparr>flash := W25QXX_Init (flash s), base_adr := adr\<rparr>)"

definition UnInit :: "u32 \<Rightarrow> prg_state \<Rightarrow> int \<times> prg_state" where
  "UnInit fnc s = (0, s)"

definition EraseChip :: "prg_state \<Rightarrow> flash_error + int \<times> prg_state" where
  "EraseChip s =
     (case W25QXX_Erase_Chip (flash s) of
        Inl e \<Rightarrow> Inl e
      | Inr c \<Rightarrow> Inr (0, s\<lparr>flash := c\<rparr>))"

definition EraseSector :: "u32 \<Rightarrow> prg_state \<Rightarrow> flash_error + int \<times> prg_state" where
  "EraseSector adr s =
     (case W25QXX_Erase_Sector (dev_offset s adr) (flash s) of
        Inl e \<Rightarrow> Inl e
      | Inr c \<Rightarrow> Inr (0, s\<lparr>flash := c\<rparr>))"

definition BlankCheck :: "u32 \<Rightarrow> u32 \<Rightarrow> u8 \<Rightarrow> prg_state \<Rightarrow> int \<times> prg_state" where
  "BlankCheck adr sz pat s = (1, s)"

definition ProgramPage :: "u32 \<Rightarrow> u32 \<Rightarrow> u8 list \<Rightarrow> prg_state \<Rightarrow> flash_error + int \<times> prg_state" where
  "ProgramPage adr sz buf s =
     (case W25QXX_Write_NoCheck buf (dev_offset s adr) sz (flash s) of
        Inl e \<Rightarrow> Inl e
      | Inr c \<Rightarrow> Inr (0, s\<lparr>flash := c\<rparr>))"

text \<open>
  The comparison loop \<open>for (i = 0; i < PAGE_SIZE; i++) if (aux_buf[i] != buf[i])
  return (adr+i);\<close>: \<open>Some i\<close> is the early return at index \<open>i\<close>, \<open>None\<close> the end of
  the loop. The host's buffer \<open>buf\<close> is the list of bytes the host made readable;
  indexing past it is a read out of bounds.
\<close>

function verify_scan :: "u8 list \<Rightarrow> u8 list \<Rightarrow> nat \<Rightarrow> flash_error + nat option" where
  "verify_scan aux buf i =
     (if i < PAGE_SIZE then
        (if length buf \<le> i then Inl Host_buf_overread
         else if aux ! i \<noteq> buf ! i then Inr (Some i)
         else verify_scan aux buf (Suc i))
      else Inr None)"
  by pat_completeness auto
termination
  by (relation "measure (\<lambda>(aux, buf, i). PAGE_SIZE - i)") auto

declare verify_scan.simps [simp del]

definition Verify :: "u32 \<Rightarrow> u32 \<Rightarrow> u8 list \<Rightarrow> prg_state \<Rightarrow> flash_error + u32 \<times> prg_state" where
  "Verify adr sz buf s =
     (case W25QXX_Read (dev_offset s adr) sz (flash s) of
        Inl e \<Rightarrow> Inl e
      | Inr data \<Rightarrow>
          (case store_prefix data (aux_buf s) of
             Inl e \<Rightarrow> Inl e
           | Inr aux \<Rightarrow>
               (case verify_scan aux buf 0 of
                  Inl e \<Rightarrow> Inl e
                | Inr (Some i) \<Rightarrow> Inr (adr + of_nat i, s\<lparr>aux_buf := aux\<rparr>)
                | Inr None \<Rightarrow> Inr (adr + sz, s\<lparr>aux_buf := aux\<rparr>))))"

text \<open>The well-formedness invariant: \<open>aux_buf\<close> is an array of \<open>PAGE_SIZE\<close> bytes.\<close>

definition wf_prg :: "prg_state \<Rightarrow> bool" where
  "wf_prg s \<longleftrightarrow> length (aux_buf s) = PAGE_SIZE"

subsection \<open>The verify loop\<close>

lemma verify_scan_find_eq:
  "verify_scan aux buf i =
     (case find (\<lambda>j. length buf \<le> j \<or> aux ! j \<noteq> buf ! j) [i..<PAGE_SIZE] of
        None \<Rightarrow> Inr None
      | Some j \<Rightarrow> if length buf \<le> j then Inl Host_buf_overread else Inr (Some j))"
proof (induction aux buf i rule: verify_scan.induct)
  case (1 aux buf i)
  show ?case
  proof (cases "i < PAGE_SIZE")
    case True
    then show ?thesis
      using "1.IH" by (simp add: verify_scan.simps [of aux buf i] find_upt_step [of _ i])
  next
    case False
    then show ?thesis
      by (simp add: verify_scan.simps [of aux buf i])
  qed
qed

subsection \<open>Verify\<close>

lemma Verify_ready:
  assumes "w25q_ready (flash s)" and "unat sz \<le> length (aux_buf s)"
  shows "Verify adr sz buf s =
    (let aux = map (\<lambda>i. w25q_mem (flash s) (dev_offset s adr + of_nat i)) [0..<unat sz]
               @ drop (unat sz) (aux_buf s)
     in case verify_scan aux buf 0 of
          Inl e \<Rightarrow> Inl e
        | Inr (Some i) \<Rightarrow> Inr (adr + of_nat i, s\<lparr>aux_buf := aux\<rparr>)
        | Inr None \<Rightarrow> Inr (adr + sz, s\<lparr>aux_buf := aux\<rparr>))"
  using assms by (simp add: Verify_def W25QXX_Read_def store_prefix_def Let_def)

lemma Verify_window_eq:
  assumes ready: "w25q_ready (flash s)" and wf: "wf_prg s"
    and sz: "unat sz \<le> PAGE_SIZE" and buf: "unat sz \<le> length buf"
    and same: "\<forall>j < unat sz. w25q_mem (flash s) (dev_offset s adr + of_nat j) = buf ! j"
  shows "Verify adr sz buf s =
    (let s' = s\<lparr>aux_buf := take (unat sz) buf @ drop (unat sz) (aux_buf s)\<rparr> in
     case find (\<lambda>j. length buf \<le> j \<or> aux_buf s ! j \<noteq> buf ! j) [unat sz..<PAGE_SIZE] of
       None \<Rightarrow> Inr (adr + sz, s')
     | Some j \<Rightarrow> if length buf \<le> j then Inl Host_buf_overread else Inr (adr + of_nat j, s'))"
proof -
  let ?aux = "take (unat sz) buf @ drop (unat sz) (aux_buf s)"
  have aux: "map (\<lambda>i. w25q_mem (flash s) (dev_offset s adr + of_nat i)) [0..<unat sz]
               @ drop (unat sz) (aux_buf s) = ?aux"
    using buf same by (auto intro!: nth_equalityI)
  have "find (\<lambda>j. length buf \<le> j \<or> ?aux ! j \<noteq> buf ! j) [0..<PAGE_SIZE]
      = find (\<lambda>j. length buf \<le> j \<or> ?aux ! j \<noteq> buf ! j) [unat sz..<PAGE_SIZE]"
    using buf by (intro find_upt_skip) (auto simp: nth_append)
  also have "\<dots> = find (\<lambda>j. length buf \<le> j \<or> aux_buf s ! j \<noteq> buf ! j) [unat sz..<PAGE_SIZE]"
    using wf sz buf by (intro find_cong) (auto simp: nth_append wf_prg_def)
  finally have tail: "verify_scan ?aux buf 0 =
      (case find (\<lambda>j. length buf \<le> j \<or> aux_buf s ! j \<noteq> buf ! j) [unat sz..<PAGE_SIZE] of
         None \<Rightarrow> Inr None
       | Some j \<Rightarrow> if length buf \<le> j then Inl Host_buf_overread else Inr (Some j))"
    by (simp add: verify_scan_find_eq)
  have "unat sz \<le> length (aux_buf s)"
    using wf sz by (simp add: wf_prg_def)
  then have "Verify adr sz buf s =
     (case verify_scan ?aux buf 0 of
          Inl e \<Rightarrow> Inl e
        | Inr (Some i) \<Rightarrow> Inr (adr + of_nat i, s\<lparr>aux_buf := ?aux\<rparr>)
        | Inr None \<Rightarrow> Inr (adr + sz, s\<lparr>aux_buf := ?aux\<rparr>))"
    using ready by (simp only: Verify_ready Let_def aux)
  then show ?thesis
    by (simp add: tail Let_def split: option.split)
qed

lemma verify_scan_Some_bound:
  "verify_scan aux buf i = Inr (Some j) \<Longrightarrow> j < PAGE_SIZE"
  by (auto simp: verify_scan_find_eq find_upt_Some_iff split: option.splits if_splits)

lemma Verify_Inr_cases:
  assumes "Verify adr sz buf s = Inr (r, s')"
  obtains aux i where "store_prefix (map (\<lambda>i. w25q_mem (flash s) (dev_offset s adr + of_nat i))
                         [0..<unat sz]) (aux_buf s) = Inr aux"
      and "verify_scan aux buf 0 = Inr (Some i)" and "r = adr + of_nat i" and "s' = s\<lparr>aux_buf := aux\<rparr>"
  | aux where "store_prefix (map (\<lambda>i. w25q_mem (flash s) (dev_offset s adr + of_nat i))
                         [0..<unat sz]) (aux_buf s) = Inr aux"
      and "verify_scan aux buf 0 = Inr None" and "r = adr + sz" and "s' = s\<lparr>aux_buf := aux\<rparr>"
  using assms
  by (auto simp: Verify_def W25QXX_Read_def split: if_splits sum.splits option.splits)

lemma verify_scan_Inr_Some:
  "verify_scan aux buf 0 = Inr (Some i) \<Longrightarrow>
     i < PAGE_SIZE \<and> i < length buf \<and> aux ! i \<noteq> buf ! i \<and> (\<forall>j<i. aux ! j = buf ! j)"
  by (auto simp: verify_scan_find_eq find_upt_Some_iff split: option.splits if_splits)

lemma verify_scan_Inr_None:
  "verify_scan aux buf 0 = Inr None \<Longrightarrow> \<forall>j<PAGE_SIZE. j < length buf \<and> aux ! j = buf ! j"
  by (auto simp: verify_scan_find_eq find_upt_None_iff split: option.splits if_splits)

lemma Verify_first_mismatch_eq:
  assumes ready: "w25q_ready (flash s)" and wf: "wf_prg s"
    and sz: "unat sz \<le> PAGE_SIZE" and k: "k < unat sz" and buf: "k < length buf"
    and diff: "w25q_mem (flash s) (dev_offset s adr + of_nat k) \<noteq> buf ! k"
    and same: "\<forall>j < k. w25q_mem (flash s) (dev_offset s adr + of_nat j) = buf ! j"
  shows "\<exists>s'. Verify adr sz buf s = Inr (adr + of_nat k, s')"
proof -
  let ?aux = "map (\<lambda>i. w25q_mem (flash s) (dev_offset s adr + of_nat i)) [0..<unat sz]
               @ drop (unat sz) (aux_buf s)"
  have "find (\<lambda>j. length buf \<le> j \<or> ?aux ! j \<noteq> buf ! j) [0..<PAGE_SIZE] = Some k"
    using k sz buf diff same by (auto simp: find_upt_Some_iff nth_append)
  then have "verify_scan ?aux buf 0 = Inr (Some k)"
    using buf by (simp add: verify_scan_find_eq)
  moreover have "unat sz \<le> length (aux_buf s)"
    using wf sz by (simp add: wf_prg_def)
  ultimately show ?thesis
    using ready by (simp add: Verify_ready Let_def)
qed

lemma sector_of_eq_iff:
  "sector_of a = sector_of b \<longleftrightarrow> unat a div SECTOR_SIZE = unat b div SECTOR_SIZE"
proof -
  have "sector_of a = sector_of b \<longleftrightarrow> unat (sector_of a) = unat (sector_of b)"
    by (rule word_unat_eq_iff)
  then show ?thesis
    by (simp add: unat_sector_of SECTOR_SIZE_def)
qed

subsection \<open>Verify on the page the host hands over\<close>

text \<open>
  C1. When the first \<open>sz\<close> device bytes at the translated offset differ from the
  host's data, and \<open>k\<close> is the first index where they differ, \<open>Verify\<close> returns the
  absolute address \<open>adr + k\<close>: never a later mismatch than the first one. This holds
  for every size up to the page buffer's capacity, because a mismatch inside the
  requested window is met before the loop reaches the stale part of \<open>aux_buf\<close>.
\<close>

theorem Verify_first_mismatch:
  assumes ready: "w25q_ready (flash s)" and wf: "wf_prg s"
    and sz: "unat sz \<le> PAGE_SIZE" and k: "k < unat sz" and buf: "k < length buf"
    and diff: "w25q_mem (flash s) (dev_offset s adr + of_nat k) \<noteq> buf ! k"
    and same: "\<forall>j < k. w25q_mem (flash s) (dev_offset s adr + of_nat j) = buf ! j"
  shows "\<exists>s'. Verify adr sz buf s = Inr (adr + of_nat k, s')"
  using assms by (rule Verify_first_mismatch_eq)

theorem Verify_first_mismatch_witness:
  "\<exists>s'. Verify 0x90000000 4096 (replicate 4096 0xFF)
     \<lparr>aux_buf = replicate PAGE_SIZE 0, base_adr = 0x90000000,
         flash = \<lparr>w25q_mem = (\<lambda>a. if a = 0 then 7 else 0xFF), w25q_ready = True\<rparr>\<rparr> = Inr (0x90000000, s')"
  using Verify_first_mismatch [where k = 0 and adr = "0x90000000" and sz = 4096
      and buf = "replicate 4096 0xFF"
      and s = "\<lparr>aux_buf = replicate PAGE_SIZE 0, base_adr = 0x90000000,  flash = \<lparr>w25q_mem = (\<lambda>a. if a = 0 then 7 else 0xFF), w25q_ready = True\<rparr>\<rparr>"]
  by (simp add: wf_prg_def dev_offset_def PAGE_SIZE_def)

text \<open>
  C2. Round trip on the device side: when the host verifies a whole page
  (\<open>sz = PAGE_SIZE\<close>) and the device holds exactly the host's bytes, \<open>Verify\<close>
  returns \<open>adr + sz\<close>, and \<open>aux_buf\<close> is left holding that page.
\<close>

theorem Verify_page_match:
  assumes ready: "w25q_ready (flash s)" and wf: "wf_prg s"
    and sz: "unat sz = PAGE_SIZE" and buf: "PAGE_SIZE \<le> length buf"
    and same: "\<forall>j < PAGE_SIZE. w25q_mem (flash s) (dev_offset s adr + of_nat j) = buf ! j"
  shows "Verify adr sz buf s = Inr (adr + sz, s\<lparr>aux_buf := take PAGE_SIZE buf\<rparr>)"
proof -
  let ?aux = "map (\<lambda>i. w25q_mem (flash s) (dev_offset s adr + of_nat i)) [0..<unat sz]
               @ drop (unat sz) (aux_buf s)"
  have page: "map (\<lambda>i. w25q_mem (flash s) (dev_offset s adr + of_nat i)) [0..<PAGE_SIZE]
               = take PAGE_SIZE buf"
    using buf same by (auto intro!: nth_equalityI)
  then have aux: "?aux = take PAGE_SIZE buf"
    using sz wf by (simp add: wf_prg_def)
  have "find (\<lambda>j. length buf \<le> j \<or> ?aux ! j \<noteq> buf ! j) [0..<PAGE_SIZE] = None"
    using buf by (simp add: aux find_upt_None_iff)
  then have "verify_scan ?aux buf 0 = Inr None"
    by (simp add: verify_scan_find_eq)
  then show ?thesis
    using ready wf sz by (simp add: Verify_ready wf_prg_def Let_def page)
qed
theorem Verify_page_match_witness:
  "Verify 0x90000000 4096 (replicate 4096 0xFF)
     \<lparr>aux_buf = replicate PAGE_SIZE 0, base_adr = 0x90000000,
      flash = \<lparr>w25q_mem = (\<lambda>a. 0xFF), w25q_ready = True\<rparr>\<rparr> =
   Inr (0x90001000, \<lparr>aux_buf = take PAGE_SIZE (replicate 4096 0xFF), base_adr = 0x90000000,
      flash = \<lparr>w25q_mem = (\<lambda>a. 0xFF), w25q_ready = True\<rparr>\<rparr>)"
  using Verify_page_match [where adr = "0x90000000" and sz = 4096
      and buf = "replicate 4096 0xFF"
      and s = "\<lparr>aux_buf = replicate PAGE_SIZE 0, base_adr = 0x90000000,
      flash = \<lparr>w25q_mem = (\<lambda>a. 0xFF), w25q_ready = True\<rparr>\<rparr>"]
  by (simp add: wf_prg_def PAGE_SIZE_def)

text \<open>
  C3. When \<open>sz \<le> PAGE_SIZE\<close> and the device holds the host's first \<open>sz\<close> bytes,
  \<open>Verify\<close> returns \<open>adr + sz\<close> only because the loop still compares the whole
  buffer: it also needs the stale bytes \<open>aux_buf[sz..PAGE_SIZE)\<close> left by earlier
  calls to agree with \<open>buf[sz..PAGE_SIZE)\<close>. Under that condition the result is
  \<open>adr + sz\<close> and \<open>aux_buf\<close> ends up equal to the host's page.
\<close>

theorem Verify_window_match:
  assumes ready: "w25q_ready (flash s)" and wf: "wf_prg s"
    and sz: "unat sz \<le> PAGE_SIZE" and buf: "PAGE_SIZE \<le> length buf"
    and same: "\<forall>j < unat sz. w25q_mem (flash s) (dev_offset s adr + of_nat j) = buf ! j"
    and tail: "\<forall>j. unat sz \<le> j \<longrightarrow> j < PAGE_SIZE \<longrightarrow> aux_buf s ! j = buf ! j"
  shows "Verify adr sz buf s = Inr (adr + sz, s\<lparr>aux_buf := take PAGE_SIZE buf\<rparr>)"
proof -
  have "find (\<lambda>j. length buf \<le> j \<or> aux_buf s ! j \<noteq> buf ! j) [unat sz..<PAGE_SIZE] = None"
    using buf tail by (auto simp: find_upt_None_iff)
  moreover have "take (unat sz) buf @ drop (unat sz) (aux_buf s) = take PAGE_SIZE buf"
    using wf sz buf tail by (auto simp: wf_prg_def nth_append intro!: nth_equalityI)
  ultimately show ?thesis
    using Verify_window_eq [OF ready wf sz _ same] sz buf by simp
qed

theorem Verify_window_match_witness:
  "Verify 0x90000000 1 (7 # replicate 4095 0xFF)
     \<lparr>aux_buf = replicate PAGE_SIZE 0xFF, base_adr = 0x90000000,
      flash = \<lparr>w25q_mem = (\<lambda>a. if a = 0 then 7 else 0), w25q_ready = True\<rparr>\<rparr> =
   Inr (0x90000000 + 1, \<lparr>aux_buf = take PAGE_SIZE (7 # replicate 4095 0xFF), base_adr = 0x90000000,
      flash = \<lparr>w25q_mem = (\<lambda>a. if a = 0 then 7 else 0), w25q_ready = True\<rparr>\<rparr>)"
  using Verify_window_match [where adr = "0x90000000" and sz = 1
      and buf = "7 # replicate 4095 0xFF"
      and s = "\<lparr>aux_buf = replicate PAGE_SIZE 0xFF, base_adr = 0x90000000,
      flash = \<lparr>w25q_mem = (\<lambda>a. if a = 0 then 7 else 0), w25q_ready = True\<rparr>\<rparr>"]
  by (auto simp: wf_prg_def dev_offset_def PAGE_SIZE_def nth_Cons')

text \<open>
  C4. The stale-buffer defect: when \<open>sz < PAGE_SIZE\<close> and the device holds
  exactly the host's \<open>sz\<close> bytes, \<open>Verify\<close> still fails at the first index
  \<open>j\<close> beyond the window where the bytes left in \<open>aux_buf\<close> by earlier calls
  differ from the host's page, and reports \<open>adr + j\<close>, an address outside the
  range it was asked to check, instead of \<open>adr + sz\<close>.
\<close>

theorem Verify_stale_tail_false_failure:
  assumes ready: "w25q_ready (flash s)" and wf: "wf_prg s"
    and sz: "unat sz \<le> PAGE_SIZE" and buf: "PAGE_SIZE \<le> length buf"
    and same: "\<forall>i < unat sz. w25q_mem (flash s) (dev_offset s adr + of_nat i) = buf ! i"
    and j: "unat sz < j" "j < PAGE_SIZE" and stale: "aux_buf s ! j \<noteq> buf ! j"
    and before: "\<forall>i. unat sz \<le> i \<longrightarrow> i < j \<longrightarrow> aux_buf s ! i = buf ! i"
  shows "Verify adr sz buf s =
           Inr (adr + of_nat j, s\<lparr>aux_buf := take (unat sz) buf @ drop (unat sz) (aux_buf s)\<rparr>) \<and>
         adr + of_nat j \<noteq> adr + sz"
proof -
  have "find (\<lambda>i. length buf \<le> i \<or> aux_buf s ! i \<noteq> buf ! i) [unat sz..<PAGE_SIZE] = Some j"
    using j buf stale before by (auto simp: find_upt_Some_iff)
  then have "Verify adr sz buf s =
      Inr (adr + of_nat j, s\<lparr>aux_buf := take (unat sz) buf @ drop (unat sz) (aux_buf s)\<rparr>)"
    using Verify_window_eq [OF ready wf sz _ same] sz buf j by (simp add: Let_def)
  moreover have "(of_nat j :: u32) \<noteq> sz"
  proof
    assume "of_nat j = sz"
    then have "unat (of_nat j :: u32) = unat sz"
      by simp
    then show False
      using j by (simp add: unat_of_nat_below PAGE_SIZE_def)
  qed
  ultimately show ?thesis
    by simp
qed

theorem Verify_stale_tail_false_failure_witness:
  "Verify 0x90000000 1 (7 # 0 # 1 # replicate 4093 0)
     \<lparr>aux_buf = replicate PAGE_SIZE 0, base_adr = 0x90000000,
      flash = \<lparr>w25q_mem = (\<lambda>a. if a = 0 then 7 else 0xFF), w25q_ready = True\<rparr>\<rparr> =
   Inr (0x90000002, \<lparr>aux_buf = 7 # drop 1 (replicate PAGE_SIZE 0), base_adr = 0x90000000,
      flash = \<lparr>w25q_mem = (\<lambda>a. if a = 0 then 7 else 0xFF), w25q_ready = True\<rparr>\<rparr>)"
  using Verify_stale_tail_false_failure [where adr = "0x90000000" and sz = 1 and j = 2
      and buf = "7 # 0 # 1 # replicate 4093 0"
      and s = "\<lparr>aux_buf = replicate PAGE_SIZE 0, base_adr = 0x90000000,
               flash = \<lparr>w25q_mem = (\<lambda>a. if a = 0 then 7 else 0xFF), w25q_ready = True\<rparr>\<rparr>"]
  by (simp add: wf_prg_def dev_offset_def PAGE_SIZE_def less_Suc_eq)

text \<open>
  C5. \<open>W25QXX_Read(aux_buf, adr-base_adr, sz)\<close> copies \<open>sz\<close> bytes into the
  \<open>PAGE_SIZE\<close>-byte array \<open>aux_buf\<close> without a bound check: for
  \<open>sz > PAGE_SIZE\<close> it writes past the array, so \<open>Verify\<close> has no defined result.
\<close>

theorem Verify_overflow:
  assumes "w25q_ready (flash s)" and "wf_prg s" and "PAGE_SIZE < unat sz"
  shows "Verify adr sz buf s = Inl Aux_buf_overflow"
  using assms by (simp add: Verify_def W25QXX_Read_def store_prefix_def wf_prg_def)

theorem Verify_overflow_witness:
  "Verify 0x90000000 8192 (replicate 8192 0)
     \<lparr>aux_buf = replicate PAGE_SIZE 0, base_adr = 0x90000000,
      flash = \<lparr>w25q_mem = (\<lambda>a. if a = 0 then 7 else 0xFF), w25q_ready = True\<rparr>\<rparr> = Inl Aux_buf_overflow"
  by (rule Verify_overflow) (simp_all add: wf_prg_def PAGE_SIZE_def)

text \<open>
  C6. When the host passes exactly \<open>sz < PAGE_SIZE\<close> bytes and the device holds
  them, the loop does not stop at \<open>sz\<close>: it reads \<open>buf[sz]\<close>, past the end of the
  host's buffer.
\<close>

theorem Verify_short_host_buffer:
  assumes ready: "w25q_ready (flash s)" and wf: "wf_prg s"
    and sz: "unat sz < PAGE_SIZE" and buf: "length buf = unat sz"
    and same: "\<forall>j < unat sz. w25q_mem (flash s) (dev_offset s adr + of_nat j) = buf ! j"
  shows "Verify adr sz buf s = Inl Host_buf_overread"
proof -
  have "find (\<lambda>j. length buf \<le> j \<or> aux_buf s ! j \<noteq> buf ! j) [unat sz..<PAGE_SIZE] = Some (unat sz)"
    using sz buf by (simp add: find_upt_step)
  then show ?thesis
    using Verify_window_eq [OF ready wf _ _ same] sz buf by simp
qed

theorem Verify_short_host_buffer_witness:
  "Verify 0x90000000 1 [7] \<lparr>aux_buf = replicate PAGE_SIZE 0, base_adr = 0x90000000,
      flash = \<lparr>w25q_mem = (\<lambda>a. if a = 0 then 7 else 0xFF), w25q_ready = True\<rparr>\<rparr> = Inl Host_buf_overread"
  by (rule Verify_short_host_buffer) (simp_all add: wf_prg_def dev_offset_def PAGE_SIZE_def)

text \<open>
  C7. The comparison loop is the search for the first mismatch of the page:
  when the host's buffer covers the page, \<open>verify_scan\<close> returns the least
  \<open>i < PAGE_SIZE\<close> with \<open>aux_buf[i] \<noteq> buf[i]\<close>, or none.
\<close>

theorem verify_scan_first_mismatch:
  assumes "PAGE_SIZE \<le> length buf"
  shows "verify_scan aux buf 0 = Inr (find (\<lambda>j. aux ! j \<noteq> buf ! j) [0..<PAGE_SIZE])"
proof -
  have "find (\<lambda>j. length buf \<le> j \<or> aux ! j \<noteq> buf ! j) [0..<PAGE_SIZE]
        = find (\<lambda>j. aux ! j \<noteq> buf ! j) [0..<PAGE_SIZE]"
    using assms by (intro find_cong) auto
  moreover have "find (\<lambda>j. aux ! j \<noteq> buf ! j) [0..<PAGE_SIZE] = Some j \<Longrightarrow> j < length buf" for j
    using assms by (simp add: find_upt_Some_iff)
  ultimately show ?thesis
    by (auto simp: verify_scan_find_eq split: option.split)
qed

theorem verify_scan_first_mismatch_witness:
  "verify_scan (replicate 4096 0) (replicate 4096 1) 0
     = Inr (find (\<lambda>j. replicate 4096 (0::u8) ! j \<noteq> replicate 4096 1 ! j) [0..<PAGE_SIZE])"
  by (rule verify_scan_first_mismatch) (simp add: PAGE_SIZE_def)

text \<open>
  C8. What \<open>Verify\<close> returns, for every size and every buffer: the loop compares
  the new \<open>aux_buf\<close> with the host's buffer over the whole page, so the result is
  \<open>adr + i\<close> for the first index \<open>i < PAGE_SIZE\<close> where they differ, or
  \<open>adr + sz\<close> when all \<open>PAGE_SIZE\<close> bytes agree; \<open>sz\<close> only decides how many
  bytes are read from the device.
\<close>

theorem Verify_result_cases:
  assumes "Verify adr sz buf s = Inr (r, s')"
  shows "(r = adr + sz \<and> (\<forall>j<PAGE_SIZE. j < length buf \<and> aux_buf s' ! j = buf ! j)) \<or>
         (\<exists>i<PAGE_SIZE. r = adr + of_nat i \<and> i < length buf \<and> aux_buf s' ! i \<noteq> buf ! i \<and>
            (\<forall>j<i. aux_buf s' ! j = buf ! j))"
  using assms
proof (cases rule: Verify_Inr_cases)
  case (1 aux i)
  then show ?thesis
    using verify_scan_Inr_Some [OF 1(2)] by auto
next
  case (2 aux)
  then show ?thesis
    using verify_scan_Inr_None [OF 2(2)] by auto
qed

theorem Verify_result_cases_witness:
  "\<exists>s'. Verify 0x90000000 1 (7 # 0 # 1 # replicate 4093 0)
     \<lparr>aux_buf = replicate PAGE_SIZE 0, base_adr = 0x90000000,
      flash = \<lparr>w25q_mem = (\<lambda>a. if a = 0 then 7 else 0xFF), w25q_ready = True\<rparr>\<rparr> = Inr (0x90000002, s') \<and>
     aux_buf s' ! 2 \<noteq> (7 # 0 # 1 # replicate 4093 0) ! 2"
proof -
  have "verify_scan (7 # drop 1 (replicate PAGE_SIZE 0)) (7 # 0 # 1 # replicate 4093 0) 0
        = Inr (Some 2)"
    by (simp add: verify_scan.simps PAGE_SIZE_def)
  then obtain s' where run: "Verify 0x90000000 1 (7 # 0 # 1 # replicate 4093 0)
     \<lparr>aux_buf = replicate PAGE_SIZE 0, base_adr = 0x90000000,
      flash = \<lparr>w25q_mem = (\<lambda>a. if a = 0 then 7 else 0xFF), w25q_ready = True\<rparr>\<rparr> = Inr (0x90000002, s')"
    by (simp add: Verify_ready PAGE_SIZE_def dev_offset_def)
  from Verify_result_cases [OF run] obtain i where i: "i < PAGE_SIZE"
    and r: "(0x90000002 :: u32) = 0x90000000 + of_nat i"
    and d: "aux_buf s' ! i \<noteq> (7 # 0 # 1 # replicate 4093 0) ! i"
    by auto
  have "(of_nat i :: u32) = 2"
    using r by simp
  then have "unat (of_nat i :: u32) = 2"
    by simp
  then have "i = 2"
    using i by (simp add: unat_of_nat_below PAGE_SIZE_def)
  with run d show ?thesis
    by blast
qed

subsection \<open>Erase and program: offset translation and effect\<close>

text \<open>
  C9. \<open>EraseSector(adr)\<close> passes the device offset \<open>adr - base_adr\<close> to the chip's
  sector erase and reports success: afterwards every byte of the 4 KiB sector
  holding that offset reads \<open>0xFF\<close>, every other byte and both globals are
  unchanged.
\<close>

theorem EraseSector_effect:
  assumes "w25q_ready (flash s)"
  shows "\<exists>s'. EraseSector adr s = Inr (0, s') \<and> aux_buf s' = aux_buf s \<and>
           base_adr s' = base_adr s \<and> w25q_ready (flash s') \<and>
           (\<forall>a. w25q_mem (flash s') a =
                 (if sector_of a = sector_of (adr - base_adr s) then 0xFF else w25q_mem (flash s) a))"
  using assms by (simp add: EraseSector_def W25QXX_Erase_Sector_def dev_offset_def)

theorem EraseSector_effect_witness:
  "\<exists>s'. EraseSector 0x90003000 \<lparr>aux_buf = replicate PAGE_SIZE 0, base_adr = 0x90000000,
      flash = \<lparr>w25q_mem = (\<lambda>a. 0), w25q_ready = True\<rparr>\<rparr> = Inr (0, s') \<and>
     w25q_mem (flash s') 0x3004 = 0xFF \<and> w25q_mem (flash s') 0x3FFF = 0xFF \<and>
     w25q_mem (flash s') 0x4000 = 0 \<and> w25q_mem (flash s') 0x2FFF = 0"
proof -
  obtain s' where "EraseSector 0x90003000 \<lparr>aux_buf = replicate PAGE_SIZE 0, base_adr = 0x90000000,
      flash = \<lparr>w25q_mem = (\<lambda>a. 0), w25q_ready = True\<rparr>\<rparr> = Inr (0, s')"
    and "\<forall>a. w25q_mem (flash s') a =
       (if sector_of a = sector_of (0x90003000 - 0x90000000) then 0xFF else 0)"
    using EraseSector_effect [where adr = "0x90003000" and s = "\<lparr>aux_buf = replicate PAGE_SIZE 0, base_adr = 0x90000000, flash = \<lparr>w25q_mem = (\<lambda>a. 0), w25q_ready = True\<rparr>\<rparr>"]
    by auto
  then show ?thesis
    by (auto simp: sector_of_def)
qed

text \<open>
  C10. \<open>ProgramPage(adr, sz, buf)\<close> passes the device offset \<open>adr - base_adr\<close> and
  \<open>sz\<close> to the chip's raw write and reports success: byte \<open>i < sz\<close> of the window
  becomes the old byte AND \<open>buf[i]\<close> (NOR programming only clears bits), and no
  byte outside the window changes.
\<close>

theorem ProgramPage_effect:
  assumes "w25q_ready (flash s)" and "unat sz \<le> length buf"
  shows "\<exists>s'. ProgramPage adr sz buf s = Inr (0, s') \<and> aux_buf s' = aux_buf s \<and>
           base_adr s' = base_adr s \<and> w25q_ready (flash s') \<and>
           (\<forall>i < unat sz. w25q_mem (flash s') (adr - base_adr s + of_nat i) =
                           w25q_mem (flash s) (adr - base_adr s + of_nat i) AND buf ! i) \<and>
           (\<forall>a. unat sz \<le> unat (a - (adr - base_adr s)) \<longrightarrow>
                 w25q_mem (flash s') a = w25q_mem (flash s) a)"
  using assms
  by (simp add: ProgramPage_def W25QXX_Write_NoCheck_def dev_offset_def unat_of_nat_lt_unat)

theorem ProgramPage_effect_witness:
  "\<exists>s'. ProgramPage 0x90000000 2 [1, 2] \<lparr>aux_buf = replicate PAGE_SIZE 0, base_adr = 0x90000000,
      flash = \<lparr>w25q_mem = (\<lambda>a. 0xFF), w25q_ready = True\<rparr>\<rparr> = Inr (0, s') \<and>
     aux_buf s' = replicate PAGE_SIZE 0 \<and> base_adr s' = 0x90000000 \<and> w25q_ready (flash s') \<and>
     (\<forall>i < unat (2::u32). w25q_mem (flash s') (0x90000000 - 0x90000000 + of_nat i) =
                           0xFF AND [1, 2] ! i) \<and>
     (\<forall>a. unat (2::u32) \<le> unat (a - (0x90000000 - 0x90000000)) \<longrightarrow> w25q_mem (flash s') a = 0xFF)"
  using ProgramPage_effect [where adr = "0x90000000" and sz = 2 and buf = "[1, 2]"
      and s = "\<lparr>aux_buf = replicate PAGE_SIZE 0, base_adr = 0x90000000, flash = \<lparr>w25q_mem = (\<lambda>a. 0xFF), w25q_ready = True\<rparr>\<rparr>"]
  by simp

text \<open>
  C12. \<open>adr-base_adr\<close> is \<open>unsigned long\<close> arithmetic and \<open>EraseSector\<close> has no
  error path: for a host address below the session's base it still returns 0,
  and erases the 4 KiB sector holding device offset \<open>2^32 + adr - base_adr\<close>,
  near the top of the 32-bit space, leaving every other byte unchanged.
\<close>

theorem EraseSector_below_base:
  assumes ready: "w25q_ready (flash s)" and below: "unat adr < unat (base_adr s)"
  shows "\<exists>s'. EraseSector adr s = Inr (0, s') \<and> base_adr s' = base_adr s \<and>
    (\<forall>a. w25q_mem (flash s') a =
       (if unat a div SECTOR_SIZE = (2 ^ 32 + unat adr - unat (base_adr s)) div SECTOR_SIZE
        then 0xFF else w25q_mem (flash s) a))"
proof -
  have off: "unat (dev_offset s adr) = 2 ^ 32 + unat adr - unat (base_adr s)"
    using below by (simp only: dev_offset_def unat_sub_if' if_False not_le [symmetric]) simp
  show ?thesis
    using ready by (simp add: EraseSector_def W25QXX_Erase_Sector_def sector_of_eq_iff off)
qed

theorem EraseSector_below_base_witness:
  "\<exists>s'. EraseSector 0x8FFFF000 \<lparr>aux_buf = replicate PAGE_SIZE 0, base_adr = 0x90000000,
      flash = \<lparr>w25q_mem = (\<lambda>a. 0), w25q_ready = True\<rparr>\<rparr> = Inr (0, s') \<and>
     w25q_mem (flash s') 0xFFFFF010 = 0xFF \<and> w25q_mem (flash s') 0x10 = 0"
proof -
  obtain s' where run: "EraseSector 0x8FFFF000 \<lparr>aux_buf = replicate PAGE_SIZE 0, base_adr = 0x90000000,
      flash = \<lparr>w25q_mem = (\<lambda>a. 0), w25q_ready = True\<rparr>\<rparr> = Inr (0, s')"
    and mem: "\<forall>a. w25q_mem (flash s') a =
       (if unat a div SECTOR_SIZE = (2 ^ 32 + unat (0x8FFFF000::u32) - unat (0x90000000::u32)) div SECTOR_SIZE
        then 0xFF else 0)"
    using EraseSector_below_base [where adr = "0x8FFFF000" and s = "\<lparr>aux_buf = replicate PAGE_SIZE 0,
        base_adr = 0x90000000, flash = \<lparr>w25q_mem = (\<lambda>a. 0), w25q_ready = True\<rparr>\<rparr>"]
    by auto
  show ?thesis
    using run mem [rule_format, of "0xFFFFF010"] mem [rule_format, of "0x10"]
    by (simp add: SECTOR_SIZE_def)
qed

subsection \<open>Repeated calls and the NOR programming model\<close>

text \<open>
  C18. Why the stale comparison of C4 usually goes unnoticed: when the previous
  call verified a whole page through the host's buffer \<open>page_buf\<close> (so \<open>aux_buf\<close>
  holds that page), and the host reuses the same buffer, overwriting only its
  first \<open>sz\<close> bytes, then a partial verify of a matching window succeeds, because
  the stale tails of \<open>aux_buf\<close> and of the host's buffer are the same bytes.
\<close>

theorem Verify_reused_host_buffer:
  assumes ready: "w25q_ready (flash s)" and wf: "wf_prg s"
    and sz: "unat sz \<le> PAGE_SIZE" and page: "PAGE_SIZE \<le> length page_buf"
    and prev: "aux_buf s = take PAGE_SIZE page_buf"
    and new: "length new = unat sz"
    and same: "\<forall>j < unat sz. w25q_mem (flash s) (dev_offset s adr + of_nat j) = new ! j"
  shows "Verify adr sz (new @ drop (unat sz) page_buf) s =
           Inr (adr + sz, s\<lparr>aux_buf := take PAGE_SIZE (new @ drop (unat sz) page_buf)\<rparr>)"
proof -
  let ?buf = "new @ drop (unat sz) page_buf"
  have len: "length ?buf = length page_buf"
    using new sz page by simp
  have tail: "find (\<lambda>j. length ?buf \<le> j \<or> aux_buf s ! j \<noteq> ?buf ! j) [unat sz..<PAGE_SIZE] = None"
    using len page new prev by (auto simp: find_upt_None_iff nth_append)
  have aux: "take (unat sz) ?buf @ drop (unat sz) (aux_buf s) = take PAGE_SIZE ?buf"
    using new sz prev by (simp add: take_append drop_take)
  have "\<forall>j < unat sz. w25q_mem (flash s) (dev_offset s adr + of_nat j) = ?buf ! j"
    using same new by (simp add: nth_append)
  then show ?thesis
    using Verify_window_eq [OF ready wf sz _ ] tail aux new len page sz by simp
qed

theorem Verify_reused_host_buffer_witness:
  "Verify 0x90000000 1 ([7] @ drop 1 (replicate 4096 0xAA)) \<lparr>aux_buf = take PAGE_SIZE (replicate 4096 0xAA), base_adr = 0x90000000,
      flash = \<lparr>w25q_mem = (\<lambda>a. if a = 0 then 7 else 0), w25q_ready = True\<rparr>\<rparr> =
   Inr (0x90000000 + 1, \<lparr>aux_buf = take PAGE_SIZE ([7] @ drop 1 (replicate 4096 0xAA)),
      base_adr = 0x90000000,
      flash = \<lparr>w25q_mem = (\<lambda>a. if a = 0 then 7 else 0), w25q_ready = True\<rparr>\<rparr>)"
  using Verify_reused_host_buffer [where adr = "0x90000000" and sz = 1 and new = "[7]"
      and page_buf = "replicate 4096 0xAA" and s = "\<lparr>aux_buf = take PAGE_SIZE (replicate 4096 0xAA), base_adr = 0x90000000, flash = \<lparr>w25q_mem = (\<lambda>a. if a = 0 then 7 else 0), w25q_ready = True\<rparr>\<rparr>"]
  by (simp add: wf_prg_def dev_offset_def PAGE_SIZE_def)

end
