(* ===== verification/Host.thy ===== *)
theory Host
  imports FlashPrg
begin

text \<open>
  The host tool's side of the interface (Keil's \<open>FlashOS.H\<close> calling convention,
  not part of this repository, modelled from the specification): a datatype of
  entry-point calls, the dispatch \<open>flash_call\<close> that runs one call on the
  controller of \<open>FlashPrg\<close>, runs of call sequences, and the reachable states of
  the host protocol. Before each \<open>Init\<close> the host resets the MCU (the comment at
  \<open>Init\<close> in \<open>FlashPrg.c\<close>): the algorithm's RAM is loaded afresh, so both
  globals are zero and the QSPI interface is unconfigured, while the flash array
  keeps its contents. A session is \<open>Init\<close>, any erase, blank-check, program and
  verify calls, and \<open>UnInit\<close>.
\<close>

datatype host_call =
    Call_Init u32 u32 u32
  | Call_UnInit u32
  | Call_EraseChip
  | Call_EraseSector u32
  | Call_BlankCheck u32 u32 u8
  | Call_ProgramPage u32 u32 "u8 list"
  | Call_Verify u32 u32 "u8 list"

datatype host_ret = Ret_Status int | Ret_Addr u32

fun flash_call :: "host_call \<Rightarrow> prg_state \<Rightarrow> flash_error + host_ret \<times> prg_state" where
  "flash_call (Call_Init adr clk fnc) s = Inr (apfst Ret_Status (Init adr clk fnc s))"
| "flash_call (Call_UnInit fnc) s = Inr (apfst Ret_Status (UnInit fnc s))"
| "flash_call Call_EraseChip s = map_sum id (apfst Ret_Status) (EraseChip s)"
| "flash_call (Call_EraseSector adr) s = map_sum id (apfst Ret_Status) (EraseSector adr s)"
| "flash_call (Call_BlankCheck adr sz pat) s = Inr (apfst Ret_Status (BlankCheck adr sz pat s))"
| "flash_call (Call_ProgramPage adr sz buf) s =
     map_sum id (apfst Ret_Status) (ProgramPage adr sz buf s)"
| "flash_call (Call_Verify adr sz buf) s = map_sum id (apfst Ret_Addr) (Verify adr sz buf s)"

fun run_calls :: "host_call list \<Rightarrow> prg_state \<Rightarrow> flash_error + host_ret list \<times> prg_state" where
  "run_calls [] s = Inr ([], s)"
| "run_calls (c # cs) s =
     (case flash_call c s of
        Inl e \<Rightarrow> Inl e
      | Inr (r, s') \<Rightarrow>
          (case run_calls cs s' of
             Inl e \<Rightarrow> Inl e
           | Inr (rs, s'') \<Rightarrow> Inr (r # rs, s'')))"

text \<open>The calls a session makes between \<open>Init\<close> and \<open>UnInit\<close>, and those that drive the chip.\<close>

fun is_operation :: "host_call \<Rightarrow> bool" where
  "is_operation (Call_Init adr clk fnc) = False"
| "is_operation (Call_UnInit fnc) = False"
| "is_operation c = True"

fun uses_chip :: "host_call \<Rightarrow> bool" where
  "uses_chip Call_EraseChip = True"
| "uses_chip (Call_EraseSector adr) = True"
| "uses_chip (Call_ProgramPage adr sz buf) = True"
| "uses_chip (Call_Verify adr sz buf) = True"
| "uses_chip c = False"

text \<open>
  What the host promises about a call's buffer: \<open>ProgramPage\<close> gets at least
  \<open>sz\<close> bytes; \<open>Verify\<close> gets \<open>sz \<le> PAGE_SIZE\<close> and a buffer of a whole page,
  since its loop reads \<open>PAGE_SIZE\<close> bytes of it.
\<close>

fun call_in_contract :: "host_call \<Rightarrow> bool" where
  "call_in_contract (Call_ProgramPage adr sz buf) \<longleftrightarrow> unat sz \<le> length buf"
| "call_in_contract (Call_Verify adr sz buf) \<longleftrightarrow> unat sz \<le> PAGE_SIZE \<and> PAGE_SIZE \<le> length buf"
| "call_in_contract c \<longleftrightarrow> True"

definition reset_state :: "flash_mem \<Rightarrow> prg_state" where
  "reset_state m =
     \<lparr>aux_buf = replicate PAGE_SIZE 0, base_adr = 0,
      flash = \<lparr>w25q_mem = m, w25q_ready = False\<rparr>\<rparr>"

datatype phase = Idle | Session u32 u32

inductive host_reach :: "phase \<Rightarrow> prg_state \<Rightarrow> bool" where
  power_on: "host_reach Idle (reset_state m)"
| reset: "host_reach p s \<Longrightarrow> host_reach Idle (reset_state (w25q_mem (flash s)))"
| init: "host_reach Idle s \<Longrightarrow> flash_call (Call_Init adr clk fnc) s = Inr (r, s') \<Longrightarrow>
           host_reach (Session adr fnc) s'"
| operation: "host_reach (Session b fnc) s \<Longrightarrow> is_operation c \<Longrightarrow> flash_call c s = Inr (r, s') \<Longrightarrow>
           host_reach (Session b fnc) s'"
| uninit: "host_reach (Session b fnc) s \<Longrightarrow> flash_call (Call_UnInit fnc) s = Inr (r, s') \<Longrightarrow>
           host_reach Idle s'"

definition session_inv :: "phase \<Rightarrow> prg_state \<Rightarrow> bool" where
  "session_inv p s \<longleftrightarrow> wf_prg s \<and>
     (case p of Idle \<Rightarrow> True | Session b fnc \<Rightarrow> base_adr s = b \<and> w25q_ready (flash s))"

inductive_cases host_reach_SessionE: "host_reach (Session b fnc) s"

subsection \<open>What each entry point leaves unchanged\<close>

lemma chip_ops_Inr [flash_simps]:
  "EraseChip s = Inr (r, s') \<Longrightarrow>
     r = 0 \<and> aux_buf s' = aux_buf s \<and> base_adr s' = base_adr s \<and> w25q_ready (flash s) \<and> w25q_ready (flash s')"
  "EraseSector adr s = Inr (r, s') \<Longrightarrow>
     r = 0 \<and> aux_buf s' = aux_buf s \<and> base_adr s' = base_adr s \<and> w25q_ready (flash s) \<and> w25q_ready (flash s')"
  "ProgramPage adr sz buf s = Inr (r, s') \<Longrightarrow>
     r = 0 \<and> aux_buf s' = aux_buf s \<and> base_adr s' = base_adr s \<and> w25q_ready (flash s) \<and> w25q_ready (flash s')"
  by (auto simp: EraseChip_def EraseSector_def ProgramPage_def flash_simps split: sum.splits)

lemma Verify_Inr_frame:
  assumes "Verify adr sz buf s = Inr (r, s')"
  shows "length (aux_buf s') = length (aux_buf s) \<and> base_adr s' = base_adr s \<and> flash s' = flash s"
  using assms by (cases rule: Verify_Inr_cases) (auto dest: length_store_prefix)

lemma flash_call_operation_frame:
  assumes "is_operation c" and "flash_call c s = Inr (r, s')"
  shows "length (aux_buf s') = length (aux_buf s) \<and> base_adr s' = base_adr s \<and>
         w25q_ready (flash s') = w25q_ready (flash s)"
  using assms
  by (cases c) (auto simp: BlankCheck_def flash_simps dest: chip_ops_Inr Verify_Inr_frame)

lemma verify_scan_page_buffer:
  "PAGE_SIZE \<le> length buf \<Longrightarrow> \<exists>r. verify_scan aux buf i = Inr r"
  by (auto simp: verify_scan_find_eq find_upt_Some_iff split: option.split)

lemma host_reach_session_inv:
  "host_reach p s \<Longrightarrow> session_inv p s"
proof (induction rule: host_reach.induct)
  case (power_on m)
  then show ?case
    by (simp add: session_inv_def reset_state_def wf_prg_def)
next
  case (reset p s)
  then show ?case
    by (simp add: session_inv_def reset_state_def wf_prg_def)
next
  case (init s adr clk fnc r s')
  then show ?case
    by (auto simp: session_inv_def Init_def W25QXX_Init_def wf_prg_def)
next
  case (operation b fnc s c r s')
  then show ?case
    using flash_call_operation_frame [OF operation.hyps(2,3)]
    by (simp add: session_inv_def wf_prg_def)
next
  case (uninit b fnc s r s')
  then show ?case
    by (auto simp: session_inv_def UnInit_def)
qed

lemma verify_scan_Inl:
  "verify_scan aux buf i = Inl e \<Longrightarrow> e = Host_buf_overread"
  by (auto simp: verify_scan_find_eq split: option.splits if_splits)

lemma Verify_Inl_ready:
  assumes "w25q_ready (flash s)" and "Verify adr sz buf s = Inl e"
  shows "e \<noteq> Chip_not_ready"
proof -
  obtain aux where "store_prefix (map (\<lambda>i. w25q_mem (flash s) (dev_offset s adr + of_nat i))
      [0..<unat sz]) (aux_buf s) = Inl e \<or>
    (store_prefix (map (\<lambda>i. w25q_mem (flash s) (dev_offset s adr + of_nat i))
      [0..<unat sz]) (aux_buf s) = Inr aux \<and> verify_scan aux buf 0 = Inl e)"
    using assms by (auto simp: Verify_def W25QXX_Read_def split: sum.splits option.splits)
  then show ?thesis
    by (auto simp: store_prefix_Inl_iff dest: verify_scan_Inl)
qed

lemma ready_never_not_ready:
  assumes "w25q_ready (flash s)"
  shows "flash_call c s \<noteq> Inl Chip_not_ready"
proof (cases c)
  case (Call_Verify adr sz buf)
  then show ?thesis
    using assms Verify_Inl_ready [of s adr sz buf] by (auto simp: map_sum_id_Inl_iff)
qed (use assms in \<open>auto simp: map_sum_id_Inl_iff EraseChip_def EraseSector_def ProgramPage_def
      W25QXX_Erase_Chip_def W25QXX_Erase_Sector_def W25QXX_Write_NoCheck_def split: sum.splits\<close>)

lemma reach_Init:
  "host_reach (Session adr fnc) (snd (Init adr clk fnc (reset_state m)))"
  by (rule host_reach.init [OF host_reach.power_on, where r = "Ret_Status 0"]) (simp add: Init_def)

subsection \<open>The protocol's guarantees\<close>

text \<open>
  C13. Session invariant: in every state the host protocol reaches inside a
  session opened by \<open>Init(b, clk, fnc)\<close>, \<open>base_adr\<close> is still \<open>b\<close>, the chip
  interface is initialised, and \<open>aux_buf\<close> is a whole page. Proved by rule
  induction over the protocol, through the invariant \<open>session_inv\<close>.
\<close>

theorem session_invariant:
  assumes "host_reach (Session b fnc) s"
  shows "base_adr s = b \<and> w25q_ready (flash s) \<and> wf_prg s"
  using host_reach_session_inv [OF assms] by (simp add: session_inv_def)

theorem session_invariant_witness:
  "base_adr (snd (Init 0x90000000 0 2 (reset_state (\<lambda>a. 0xFF)))) = 0x90000000 \<and>
   w25q_ready (flash (snd (Init 0x90000000 0 2 (reset_state (\<lambda>a. 0xFF))))) \<and>
   wf_prg (snd (Init 0x90000000 0 2 (reset_state (\<lambda>a. 0xFF))))"
  by (rule session_invariant [OF reach_Init])

text \<open>
  C14. Inside a session no call ever reaches the chip before it is initialised:
  whatever the host calls, the result is never \<open>Chip_not_ready\<close>.
\<close>

theorem session_calls_ready:
  assumes "host_reach (Session b fnc) s"
  shows "flash_call c s \<noteq> Inl Chip_not_ready"
  using host_reach_session_inv [OF assms]
  by (intro ready_never_not_ready) (simp add: session_inv_def)

theorem session_calls_ready_witness:
  "flash_call (Call_ProgramPage 0x90000000 4096 (replicate 4096 0)) (snd (Init 0x90000000 0 2 (reset_state (\<lambda>a. 0xFF))))
   \<noteq> Inl Chip_not_ready"
  by (rule session_calls_ready [OF reach_Init])

text \<open>
  C15. Progress: inside a session every call whose buffers meet the host's
  contract has a defined result; erase, blank check and \<open>UnInit\<close> always do.
\<close>

theorem session_progress:
  assumes "host_reach (Session b fnc) s" and "call_in_contract c"
  shows "\<exists>r s'. flash_call c s = Inr (r, s')"
proof -
  have inv: "w25q_ready (flash s)" "length (aux_buf s) = PAGE_SIZE"
    using host_reach_session_inv [OF assms(1)] by (simp_all add: session_inv_def wf_prg_def)
  show ?thesis
  proof (cases c)
    case (Call_Verify adr sz buf)
    then have "unat sz \<le> length (aux_buf s)" "PAGE_SIZE \<le> length buf"
      using assms(2) inv by simp_all
    moreover obtain v where "verify_scan (map (\<lambda>i. w25q_mem (flash s) (dev_offset s adr + of_nat i))
        [0..<unat sz] @ drop (unat sz) (aux_buf s)) buf 0 = Inr v"
      using verify_scan_page_buffer [OF \<open>PAGE_SIZE \<le> length buf\<close>] by blast
    ultimately show ?thesis
      using inv Call_Verify by (cases v) (auto simp: Verify_ready Let_def flash_simps)
  qed (use assms(2) inv in \<open>auto simp: EraseChip_def EraseSector_def ProgramPage_def
      W25QXX_Erase_Chip_def W25QXX_Erase_Sector_def W25QXX_Write_NoCheck_def\<close>)
qed

theorem session_progress_witness:
  "\<exists>r s'. flash_call (Call_Verify 0x90000000 4096 (replicate 4096 0)) (snd (Init 0x90000000 0 2 (reset_state (\<lambda>a. 0xFF)))) = Inr (r, s')"
  by (rule session_progress [OF reach_Init]) (simp add: PAGE_SIZE_def)

text \<open>
  C16. Calls made after a reset and before \<open>Init\<close> are outside the contract:
  every entry point that drives the chip finds the QSPI interface unconfigured.
\<close>

theorem reset_calls_fail:
  assumes "uses_chip c"
  shows "flash_call c (reset_state m) = Inl Chip_not_ready"
  using assms
  by (cases c) (simp_all add: reset_state_def EraseChip_def EraseSector_def ProgramPage_def
      Verify_def flash_simps)

theorem reset_calls_fail_witness:
  "flash_call (Call_Verify 0x90000000 4096 (replicate 4096 0)) (reset_state (\<lambda>a. 0xFF))
   = Inl Chip_not_ready"
  by (rule reset_calls_fail) simp

end
