(* ===== verification/HostView.thy ===== *)
theory HostView
  imports Host
begin

unbundle bit_operations_syntax

text \<open>
  The contract the host tool sees, as an abstract specification, and the
  refinement lemmas that the controller of \<open>FlashPrg\<close> implements it. The host
  addresses the flash linearly: \<open>host_view s x\<close> is the byte at host address
  \<open>x\<close>, i.e. at device offset \<open>x - base_adr\<close>. On that view, programming is
  \<open>view_program\<close> (independent of the base), erasing a sector is
  \<open>view_erase_sector\<close> (the sector grid is the device's, so it depends on the
  base), and verifying is \<open>verify_spec\<close>: the first mismatch within the
  requested \<open>sz\<close> bytes, else \<open>adr + sz\<close>, the corrected semantics the
  specification asks for (section 9).
\<close>

definition host_view :: "prg_state \<Rightarrow> flash_mem" where
  "host_view s x = w25q_mem (flash s) (x - base_adr s)"

definition view_erase_sector :: "u32 \<Rightarrow> u32 \<Rightarrow> flash_mem \<Rightarrow> flash_mem" where
  "view_erase_sector b adr v =
     (\<lambda>x. if sector_of (x - b) = sector_of (adr - b) then 0xFF else v x)"

definition view_program :: "u32 \<Rightarrow> u32 \<Rightarrow> u8 list \<Rightarrow> flash_mem \<Rightarrow> flash_mem" where
  "view_program adr sz buf v =
     (\<lambda>x. if unat (x - adr) < unat sz then v x AND buf ! unat (x - adr) else v x)"

definition verify_spec :: "flash_mem \<Rightarrow> u32 \<Rightarrow> u32 \<Rightarrow> u8 list \<Rightarrow> u32" where
  "verify_spec v adr sz buf =
     (case find (\<lambda>k. v (adr + of_nat k) \<noteq> buf ! k) [0..<unat sz] of
        Some k \<Rightarrow> adr + of_nat k
      | None \<Rightarrow> adr + sz)"

text \<open>The effect of one session call on the host's view; \<open>b\<close> is the session's base.\<close>

fun view_step :: "u32 \<Rightarrow> host_call \<Rightarrow> flash_mem \<Rightarrow> flash_mem" where
  "view_step b Call_EraseChip v = (\<lambda>x. 0xFF)"
| "view_step b (Call_EraseSector adr) v = view_erase_sector b adr v"
| "view_step b (Call_ProgramPage adr sz buf) v = view_program adr sz buf v"
| "view_step b c v = v"

subsection \<open>Helpers\<close>

lemma find_upt_truncate:
  assumes "m \<le> n" and "\<forall>j. m \<le> j \<longrightarrow> j < n \<longrightarrow> \<not> P j"
  shows "find P [i..<n] = find P [i..<m]"
  using assms
proof (induction "m - i" arbitrary: i)
  case 0
  then have "find P [i..<n] = None"
    by (auto simp: find_upt_None_iff)
  with "0" show ?case by simp
next
  case (Suc d)
  then have "i < m" by simp
  then have "find P [Suc i..<n] = find P [Suc i..<m]"
    using Suc by simp
  with \<open>i < m\<close> \<open>m \<le> n\<close> show ?case
    by (simp add: find_upt_step [of P i n] find_upt_step [of P i m])
qed

lemma host_view_dev_offset:
  "host_view s (adr + of_nat k) = w25q_mem (flash s) (dev_offset s adr + of_nat k)"
  by (simp add: host_view_def dev_offset_def algebra_simps)

lemma flash_call_view:
  assumes "is_operation c" and "flash_call c s = Inr (r, s')"
  shows "host_view s' = view_step (base_adr s) c (host_view s) \<and> base_adr s' = base_adr s"
proof (cases c)
  case Call_EraseChip
  then show ?thesis
    using assms by (auto simp: EraseChip_def W25QXX_Erase_Chip_def host_view_def
        map_sum_apfst_Inr_iff fun_eq_iff split: sum.splits if_splits)
next
  case (Call_EraseSector adr)
  then show ?thesis
    using assms by (auto simp: EraseSector_def W25QXX_Erase_Sector_def host_view_def
        map_sum_apfst_Inr_iff view_erase_sector_def dev_offset_def fun_eq_iff
        split: sum.splits if_splits)
next
  case (Call_ProgramPage adr sz buf)
  then show ?thesis
    using assms by (auto simp: ProgramPage_def W25QXX_Write_NoCheck_def host_view_def
        map_sum_apfst_Inr_iff view_program_def dev_offset_def fun_eq_iff
        split: sum.splits if_splits)
next
  case (Call_Verify adr sz buf)
  then obtain r0 where "Verify adr sz buf s = Inr (r0, s')"
    using assms by (auto simp: map_sum_apfst_Inr_iff)
  then show ?thesis
    using Call_Verify Verify_Inr_frame [of adr sz buf s r0 s'] by (simp add: host_view_def fun_eq_iff)
next
  case (Call_BlankCheck adr sz pat)
  then show ?thesis
    using assms by (simp add: BlankCheck_def)
qed (use assms in simp_all)

subsection \<open>Refinement\<close>

text \<open>
  C21. \<open>ProgramPage\<close> refines \<open>view_program\<close>: seen through the host's address
  space, programming changes exactly the \<open>sz\<close> bytes from \<open>adr\<close> on, whatever
  the session's base address, and the base stays fixed.
\<close>

theorem ProgramPage_refines_view:
  assumes "ProgramPage adr sz buf s = Inr (r, s')"
  shows "host_view s' = view_program adr sz buf (host_view s) \<and> base_adr s' = base_adr s"
  using assms
  by (auto simp: ProgramPage_def W25QXX_Write_NoCheck_def host_view_def view_program_def
      dev_offset_def fun_eq_iff split: sum.splits if_splits)

theorem ProgramPage_refines_view_witness:
  "\<exists>s'. ProgramPage 0x90000010 2 [1, 2] \<lparr>aux_buf = replicate PAGE_SIZE 0, base_adr = 0x90000000,
      flash = \<lparr>w25q_mem = (\<lambda>a. 0xFF), w25q_ready = True\<rparr>\<rparr> = Inr (0, s') \<and>
     host_view s' = view_program 0x90000010 2 [1, 2] (host_view \<lparr>aux_buf = replicate PAGE_SIZE 0, base_adr = 0x90000000,
      flash = \<lparr>w25q_mem = (\<lambda>a. 0xFF), w25q_ready = True\<rparr>\<rparr>)"
proof -
  obtain s' where run: "ProgramPage 0x90000010 2 [1, 2] \<lparr>aux_buf = replicate PAGE_SIZE 0, base_adr = 0x90000000,
      flash = \<lparr>w25q_mem = (\<lambda>a. 0xFF), w25q_ready = True\<rparr>\<rparr> = Inr (0, s')"
    by (simp add: ProgramPage_def W25QXX_Write_NoCheck_def)
  show ?thesis
    using run ProgramPage_refines_view [OF run] by blast
qed

text \<open>
  C22. \<open>EraseSector\<close> refines \<open>view_erase_sector\<close>: on the host's view it erases
  the host addresses whose device offsets share the 4 KiB sector of
  \<open>adr - base_adr\<close>, and nothing else.
\<close>

theorem EraseSector_refines_view:
  assumes "EraseSector adr s = Inr (r, s')"
  shows "host_view s' = view_erase_sector (base_adr s) adr (host_view s) \<and> base_adr s' = base_adr s"
  using assms
  by (auto simp: EraseSector_def W25QXX_Erase_Sector_def host_view_def view_erase_sector_def
      dev_offset_def fun_eq_iff split: sum.splits if_splits)

theorem EraseSector_refines_view_witness:
  "\<exists>s'. EraseSector 0x90003000 \<lparr>aux_buf = replicate PAGE_SIZE 0, base_adr = 0x90000000,
      flash = \<lparr>w25q_mem = (\<lambda>a. 0xFF), w25q_ready = True\<rparr>\<rparr> = Inr (0, s') \<and>
     host_view s' = view_erase_sector 0x90000000 0x90003000 (host_view \<lparr>aux_buf = replicate PAGE_SIZE 0, base_adr = 0x90000000,
      flash = \<lparr>w25q_mem = (\<lambda>a. 0xFF), w25q_ready = True\<rparr>\<rparr>)"
proof -
  obtain s' where run: "EraseSector 0x90003000 \<lparr>aux_buf = replicate PAGE_SIZE 0, base_adr = 0x90000000,
      flash = \<lparr>w25q_mem = (\<lambda>a. 0xFF), w25q_ready = True\<rparr>\<rparr> = Inr (0, s')"
    by (simp add: EraseSector_def W25QXX_Erase_Sector_def)
  show ?thesis
    using run EraseSector_refines_view [OF run] by auto
qed

lemma Verify_eq_verify_spec:
  assumes ready: "w25q_ready (flash s)" and wf: "wf_prg s"
    and sz: "unat sz \<le> PAGE_SIZE" and buf: "PAGE_SIZE \<le> length buf"
    and tail: "\<forall>j. unat sz \<le> j \<longrightarrow> j < PAGE_SIZE \<longrightarrow> aux_buf s ! j = buf ! j"
  shows "\<exists>s'. Verify adr sz buf s = Inr (verify_spec (host_view s) adr sz buf, s') \<and>
              host_view s' = host_view s"
proof -
  let ?dev = "\<lambda>i. w25q_mem (flash s) (dev_offset s adr + of_nat i)"
  let ?aux = "map ?dev [0..<unat sz] @ drop (unat sz) (aux_buf s)"
  have len: "unat sz \<le> length (aux_buf s)"
    using wf sz by (simp add: wf_prg_def)
  have "find (\<lambda>j. length buf \<le> j \<or> ?aux ! j \<noteq> buf ! j) [0..<PAGE_SIZE]
      = find (\<lambda>j. length buf \<le> j \<or> ?aux ! j \<noteq> buf ! j) [0..<unat sz]"
    using sz tail len buf by (intro find_upt_truncate) (auto simp: nth_append)
  also have "\<dots> = find (\<lambda>k. host_view s (adr + of_nat k) \<noteq> buf ! k) [0..<unat sz]"
    using sz buf by (intro find_cong) (auto simp: nth_append host_view_dev_offset)
  finally have eq: "find (\<lambda>j. length buf \<le> j \<or> ?aux ! j \<noteq> buf ! j) [0..<PAGE_SIZE]
      = find (\<lambda>k. host_view s (adr + of_nat k) \<noteq> buf ! k) [0..<unat sz]" .
  have scan: "verify_scan ?aux buf 0 =
      Inr (find (\<lambda>k. host_view s (adr + of_nat k) \<noteq> buf ! k) [0..<unat sz])"
  proof (cases "find (\<lambda>k. host_view s (adr + of_nat k) \<noteq> buf ! k) [0..<unat sz]")
    case None
    then show ?thesis
      using eq by (simp add: verify_scan_find_eq)
  next
    case (Some k)
    then have "k < unat sz"
      by (simp add: find_upt_Some_iff)
    then show ?thesis
      using eq Some buf sz by (simp add: verify_scan_find_eq)
  qed
  show ?thesis
    using ready len scan
    by (auto simp: Verify_ready Let_def verify_spec_def host_view_def split: option.split)
qed

text \<open>
  C23. \<open>Verify\<close> refines \<open>verify_spec\<close> exactly when the stale part of
  \<open>aux_buf\<close> beyond \<open>sz\<close> agrees with the host's page (always so for
  \<open>sz = PAGE_SIZE\<close>): it then returns the first mismatching host address within
  the \<open>sz\<close> requested bytes, or \<open>adr + sz\<close>, and leaves the host's view of the
  flash unchanged.
\<close>

theorem Verify_refines_spec:
  assumes ready: "w25q_ready (flash s)" and wf: "wf_prg s"
    and sz: "unat sz \<le> PAGE_SIZE" and buf: "PAGE_SIZE \<le> length buf"
    and tail: "\<forall>j. unat sz \<le> j \<longrightarrow> j < PAGE_SIZE \<longrightarrow> aux_buf s ! j = buf ! j"
  shows "\<exists>s'. Verify adr sz buf s = Inr (verify_spec (host_view s) adr sz buf, s') \<and>
              host_view s' = host_view s"
  using assms by (rule Verify_eq_verify_spec)

theorem Verify_refines_spec_witness:
  "\<exists>s'. Verify 0x90000000 1 (7 # replicate 4095 0xAA) \<lparr>aux_buf = replicate PAGE_SIZE 0xAA, base_adr = 0x90000000,
      flash = \<lparr>w25q_mem = (\<lambda>a. 0xFF), w25q_ready = True\<rparr>\<rparr> =
       Inr (verify_spec (host_view \<lparr>aux_buf = replicate PAGE_SIZE 0xAA, base_adr = 0x90000000,
      flash = \<lparr>w25q_mem = (\<lambda>a. 0xFF), w25q_ready = True\<rparr>\<rparr>) 0x90000000 1 (7 # replicate 4095 0xAA), s') \<and>
     host_view s' = host_view \<lparr>aux_buf = replicate PAGE_SIZE 0xAA, base_adr = 0x90000000,
      flash = \<lparr>w25q_mem = (\<lambda>a. 0xFF), w25q_ready = True\<rparr>\<rparr>"
  by (rule Verify_refines_spec) (auto simp: wf_prg_def PAGE_SIZE_def nth_Cons')

text \<open>
  C24. Simulation of whole sessions: any error-free sequence of erase, blank-check,
  program and verify calls inside a session acts on the host's view of the flash
  as the abstract operations applied in the same order.
\<close>

theorem run_calls_refines_view:
  assumes "host_reach (Session b fnc) s" and "list_all is_operation cs"
    and "run_calls cs s = Inr (rs, s')"
  shows "host_view s' = fold (view_step b) cs (host_view s)"
  using assms
proof (induction cs arbitrary: s rs)
  case Nil
  then show ?case by simp
next
  case (Cons c cs)
  from Cons.prems(3) obtain r s1 rs1 where c: "flash_call c s = Inr (r, s1)"
    and rest: "run_calls cs s1 = Inr (rs1, s')"
    by (auto split: sum.splits prod.splits)
  have op: "is_operation c" and ops: "list_all is_operation cs"
    using Cons.prems(2) by simp_all
  have base: "base_adr s = b"
    using host_reach_session_inv [OF Cons.prems(1)] by (simp add: session_inv_def)
  have reach1: "host_reach (Session b fnc) s1"
    by (rule host_reach.operation [OF Cons.prems(1) op c])
  have "host_view s1 = view_step b c (host_view s)"
    using flash_call_view [OF op c] base by simp
  with Cons.IH [OF reach1 ops rest] show ?case by simp
qed

theorem run_calls_refines_view_witness:
  "\<exists>rs s'. run_calls [Call_EraseChip, Call_ProgramPage 0x90000010 1 [7]]
       (snd (Init 0x90000000 0 2 (reset_state (\<lambda>a. 0)))) = Inr (rs, s') \<and>
     host_view s' = fold (view_step 0x90000000) [Call_EraseChip, Call_ProgramPage 0x90000010 1 [7]]
       (host_view (snd (Init 0x90000000 0 2 (reset_state (\<lambda>a. 0)))))"
proof -
  obtain rs s' where run: "run_calls [Call_EraseChip, Call_ProgramPage 0x90000010 1 [7]]
       (snd (Init 0x90000000 0 2 (reset_state (\<lambda>a. 0)))) = Inr (rs, s')"
    by (simp add: Init_def reset_state_def W25QXX_Init_def EraseChip_def W25QXX_Erase_Chip_def
        ProgramPage_def W25QXX_Write_NoCheck_def)
  show ?thesis
    using run run_calls_refines_view [OF reach_Init _ run] by simp
qed

end
