(* ===== verification/Contract.thy ===== *)
theory Contract
  imports HostView
begin

text \<open>
  The contracts that \<open>FlashPrg.c\<close> documents in the comment block above each
  entry point (\<open>Parameter:\<close> and \<open>Return Value:\<close> lines), as predicates over the
  return value and the host's view of the flash before and after the call, and
  the lemmas relating the code to them. Status results are decoded by the
  convention \<open>0 - OK, 1 - Failed\<close>, function codes by \<open>1 - Erase, 2 - Program,
  3 - Verify\<close>. The precondition of \<open>ProgramPage_contract\<close>, an erased
  destination, is the host's guarantee stated in the specification (section 4).
\<close>

datatype status = OK | Failed

definition decode_status :: "int \<Rightarrow> status option" where
  "decode_status r = (if r = 0 then Some OK else if r = 1 then Some Failed else None)"

datatype fnc_code = Fnc_Erase | Fnc_Program | Fnc_Verify

definition decode_fnc :: "u32 \<Rightarrow> fnc_code option" where
  "decode_fnc fnc =
     (if fnc = 1 then Some Fnc_Erase else if fnc = 2 then Some Fnc_Program
      else if fnc = 3 then Some Fnc_Verify else None)"

text \<open>\<open>Init\<close>: initialise the programming functions for the device at base \<open>adr\<close>.\<close>

definition Init_contract :: "u32 \<Rightarrow> int \<Rightarrow> prg_state \<Rightarrow> bool" where
  "Init_contract adr r s' \<longleftrightarrow>
     decode_status r \<noteq> None \<and>
     (decode_status r = Some OK \<longrightarrow> base_adr s' = adr \<and> w25q_ready (flash s'))"

definition UnInit_contract :: "int \<Rightarrow> bool" where
  "UnInit_contract r \<longleftrightarrow> decode_status r \<noteq> None"

text \<open>\<open>EraseChip\<close>: erase the complete flash memory.\<close>

definition EraseChip_contract :: "int \<Rightarrow> flash_mem \<Rightarrow> bool" where
  "EraseChip_contract r v' \<longleftrightarrow>
     decode_status r \<noteq> None \<and> (decode_status r = Some OK \<longrightarrow> (\<forall>x. v' x = 0xFF))"

text \<open>\<open>EraseSector\<close>: erase the sector holding host address \<open>adr\<close>; \<open>b\<close> is the base.\<close>

definition EraseSector_contract :: "u32 \<Rightarrow> u32 \<Rightarrow> int \<Rightarrow> flash_mem \<Rightarrow> bool" where
  "EraseSector_contract b adr r v' \<longleftrightarrow>
     decode_status r \<noteq> None \<and>
     (decode_status r = Some OK \<longrightarrow>
        (\<forall>x. sector_of (x - b) = sector_of (adr - b) \<longrightarrow> v' x = 0xFF))"

text \<open>\<open>BlankCheck\<close>: OK exactly when the \<open>sz\<close> bytes from \<open>adr\<close> all hold \<open>pat\<close>.\<close>

definition BlankCheck_contract :: "u32 \<Rightarrow> u32 \<Rightarrow> u8 \<Rightarrow> flash_mem \<Rightarrow> int \<Rightarrow> bool" where
  "BlankCheck_contract adr sz pat v r \<longleftrightarrow>
     decode_status r \<noteq> None \<and>
     (decode_status r = Some OK \<longleftrightarrow> (\<forall>k<unat sz. v (adr + of_nat k) = pat))"

text \<open>\<open>ProgramPage\<close>: after OK the \<open>sz\<close> bytes from \<open>adr\<close> hold the page data \<open>buf\<close>.\<close>

definition ProgramPage_contract ::
  "u32 \<Rightarrow> u32 \<Rightarrow> u8 list \<Rightarrow> flash_mem \<Rightarrow> int \<Rightarrow> flash_mem \<Rightarrow> bool" where
  "ProgramPage_contract adr sz buf v r v' \<longleftrightarrow>
     decode_status r \<noteq> None \<and>
     (decode_status r = Some OK \<and> (\<forall>k<unat sz. v (adr + of_nat k) = 0xFF) \<longrightarrow>
        (\<forall>k<unat sz. v' (adr + of_nat k) = buf ! k))"

text \<open>\<open>Verify\<close>: \<open>adr+sz\<close> when all \<open>sz\<close> bytes agree, else a failed address.\<close>

definition Verify_contract :: "u32 \<Rightarrow> u32 \<Rightarrow> u8 list \<Rightarrow> flash_mem \<Rightarrow> u32 \<Rightarrow> bool" where
  "Verify_contract adr sz buf v r \<longleftrightarrow>
     (if r = adr + sz then \<forall>k<unat sz. v (adr + of_nat k) = buf ! k
      else \<exists>k<unat sz. r = adr + of_nat k \<and> v (adr + of_nat k) \<noteq> buf ! k)"

text \<open>The documented contract of each host call, over the states before and after it.\<close>

fun call_contract :: "host_call \<Rightarrow> prg_state \<Rightarrow> host_ret \<Rightarrow> prg_state \<Rightarrow> bool" where
  "call_contract (Call_Init adr clk fnc) s (Ret_Status r) s' = Init_contract adr r s'"
| "call_contract (Call_UnInit fnc) s (Ret_Status r) s' = UnInit_contract r"
| "call_contract Call_EraseChip s (Ret_Status r) s' = EraseChip_contract r (host_view s')"
| "call_contract (Call_EraseSector adr) s (Ret_Status r) s' =
     EraseSector_contract (base_adr s) adr r (host_view s')"
| "call_contract (Call_BlankCheck adr sz pat) s (Ret_Status r) s' =
     BlankCheck_contract adr sz pat (host_view s) r"
| "call_contract (Call_ProgramPage adr sz buf) s (Ret_Status r) s' =
     ProgramPage_contract adr sz buf (host_view s) r (host_view s')"
| "call_contract (Call_Verify adr sz buf) s (Ret_Addr r) s' = Verify_contract adr sz buf (host_view s) r"
| "call_contract c s r s' = False"

text \<open>The two checking entry points, whose contracts ask for a comparison.\<close>

fun is_check :: "host_call \<Rightarrow> bool" where
  "is_check (Call_BlankCheck adr sz pat) = True"
| "is_check (Call_Verify adr sz buf) = True"
| "is_check c = False"

subsection \<open>Helpers\<close>

lemma view_program_erased:
  assumes "k < unat sz" and "v (adr + of_nat k) = 0xFF"
  shows "view_program adr sz buf v (adr + of_nat k) = buf ! k"
  using assms by (simp add: view_program_def unat_of_nat_lt_unat)

lemma of_nat_ne_size:
  "k < unat (sz::u32) \<Longrightarrow> adr + of_nat k \<noteq> adr + sz"
  by (metis unat_of_nat_lt_unat add_left_cancel less_irrefl)

lemma verify_spec_meets_contract:
  "Verify_contract adr sz buf v (verify_spec v adr sz buf)"
proof (cases "find (\<lambda>k. v (adr + of_nat k) \<noteq> buf ! k) [0..<unat sz]")
  case None
  then have "verify_spec v adr sz buf = adr + sz"
    by (simp add: verify_spec_def)
  with None show ?thesis
    by (simp add: Verify_contract_def find_upt_None_iff)
next
  case (Some k)
  then have "k < unat sz" and "v (adr + of_nat k) \<noteq> buf ! k"
    by (simp_all add: find_upt_Some_iff)
  then show ?thesis
    using Some of_nat_ne_size [of k sz adr] by (auto simp: verify_spec_def Verify_contract_def)
qed

subsection \<open>The code against its documented contracts\<close>

text \<open>
  C27. Every entry point other than the two checks (\<open>Init\<close>, \<open>UnInit\<close>,
  \<open>EraseChip\<close>, \<open>EraseSector\<close>, \<open>ProgramPage\<close>) meets the contract its comment
  block documents whenever it has a defined result: a documented status, and
  after OK the base captured and the chip ready, the whole chip or the
  addressed sector erased, or, on an erased destination, the page data stored
  at the \<open>sz\<close> addresses from \<open>adr\<close>.
\<close>

theorem entry_points_meet_contracts:
  assumes run: "flash_call c s = Inr (r, s')" and nc: "\<not> is_check c"
  shows "call_contract c s r s'"
proof (cases c)
  case (Call_Init adr clk fnc)
  then show ?thesis
    using run by (auto simp: Init_def Init_contract_def decode_status_def W25QXX_Init_def)
next
  case (Call_UnInit fnc)
  then show ?thesis
    using run by (auto simp: UnInit_def UnInit_contract_def decode_status_def)
next
  case Call_EraseChip
  then obtain r0 where op: "EraseChip s = Inr (r0, s')" and r: "r = Ret_Status r0"
    using run by (auto simp: map_sum_apfst_Inr_iff)
  have "host_view s' = (\<lambda>x. 0xFF)"
    using flash_call_view [of c s r s'] Call_EraseChip run by simp
  then show ?thesis
    using Call_EraseChip r chip_ops_Inr(1) [OF op]
    by (simp add: EraseChip_contract_def decode_status_def)
next
  case (Call_EraseSector adr)
  then obtain r0 where op: "EraseSector adr s = Inr (r0, s')" and r: "r = Ret_Status r0"
    using run by (auto simp: map_sum_apfst_Inr_iff)
  have "host_view s' = view_erase_sector (base_adr s) adr (host_view s)"
    using flash_call_view [of c s r s'] Call_EraseSector run by simp
  then show ?thesis
    using Call_EraseSector r chip_ops_Inr(2) [OF op]
    by (simp add: EraseSector_contract_def decode_status_def view_erase_sector_def)
next
  case (Call_ProgramPage adr sz buf)
  then obtain r0 where op: "ProgramPage adr sz buf s = Inr (r0, s')" and r: "r = Ret_Status r0"
    using run by (auto simp: map_sum_apfst_Inr_iff)
  have "host_view s' = view_program adr sz buf (host_view s)"
    using flash_call_view [of c s r s'] Call_ProgramPage run by simp
  then show ?thesis
    using Call_ProgramPage r chip_ops_Inr(3) [OF op]
    by (simp add: ProgramPage_contract_def decode_status_def view_program_erased)
qed (use nc in simp_all)

theorem entry_points_meet_contracts_witness:
  "\<exists>r s'. flash_call (Call_ProgramPage 0x90000010 2 [1, 2]) (snd (Init 0x90000000 0 2 (reset_state (\<lambda>a. 0xFF))))
            = Inr (r, s') \<and>
          call_contract (Call_ProgramPage 0x90000010 2 [1, 2]) (snd (Init 0x90000000 0 2 (reset_state (\<lambda>a. 0xFF)))) r s'"
proof -
  obtain r s' where run: "flash_call (Call_ProgramPage 0x90000010 2 [1, 2])
      (snd (Init 0x90000000 0 2 (reset_state (\<lambda>a. 0xFF)))) = Inr (r, s')"
    by (simp add: Init_def reset_state_def W25QXX_Init_def ProgramPage_def W25QXX_Write_NoCheck_def)
  have "\<not> is_check (Call_ProgramPage 0x90000010 2 [1, 2])"
    by simp
  with run show ?thesis
    using entry_points_meet_contracts [OF run] by blast
qed

text \<open>
  \<open>Init\<close> does not check its function code: for a code outside the documented
  \<open>1 - Erase, 2 - Program, 3 - Verify\<close> it still reports OK and starts a session.
\<close>

theorem Init_accepts_undocumented_fnc:
  assumes "decode_fnc fnc = None"
  shows "decode_status (fst (Init adr clk fnc s)) = Some OK \<and>
         base_adr (snd (Init adr clk fnc s)) = adr \<and> w25q_ready (flash (snd (Init adr clk fnc s)))"
  using assms by (simp add: Init_def decode_status_def W25QXX_Init_def)

theorem Init_accepts_undocumented_fnc_witness:
  "decode_fnc 0 = None \<and>
   decode_status (fst (Init 0x90000000 0 0 (reset_state (\<lambda>a. 0xFF)))) = Some OK \<and>
   base_adr (snd (Init 0x90000000 0 0 (reset_state (\<lambda>a. 0xFF)))) = 0x90000000 \<and>
   w25q_ready (flash (snd (Init 0x90000000 0 0 (reset_state (\<lambda>a. 0xFF)))))"
proof -
  have "decode_fnc 0 = None"
    by (simp add: decode_fnc_def)
  then show ?thesis
    using Init_accepts_undocumented_fnc [of 0 "0x90000000" 0 "reset_state (\<lambda>a. 0xFF)"] by simp
qed

text \<open>
  C29. On a whole page (\<open>sz = PAGE_SIZE\<close>, the host's usual call) \<open>Verify\<close>
  meets its documented contract: it returns \<open>adr+sz\<close> only when all \<open>sz\<close> bytes
  agree with the host's data, and otherwise an address \<open>adr+k\<close>, \<open>k < sz\<close>, at
  which the flash differs.
\<close>

theorem Verify_meets_contract_full_page:
  assumes "w25q_ready (flash s)" and "wf_prg s"
    and "unat sz = PAGE_SIZE" and "PAGE_SIZE \<le> length buf"
  shows "\<exists>r s'. Verify adr sz buf s = Inr (r, s') \<and> Verify_contract adr sz buf (host_view s) r"
proof -
  obtain s' where "Verify adr sz buf s = Inr (verify_spec (host_view s) adr sz buf, s')"
    using Verify_eq_verify_spec [of s sz buf adr] assms by auto
  then show ?thesis
    using verify_spec_meets_contract by blast
qed

theorem Verify_meets_contract_full_page_witness:
  "\<exists>r s'. Verify 0x90000000 0x1000 (replicate PAGE_SIZE 0xFF) (reset_state (\<lambda>a. 0xFF)\<lparr>flash :=
       \<lparr>w25q_mem = (\<lambda>a. 0xFF), w25q_ready = True\<rparr>\<rparr>) = Inr (r, s') \<and>
     Verify_contract 0x90000000 0x1000 (replicate PAGE_SIZE 0xFF)
       (host_view (reset_state (\<lambda>a. 0xFF)\<lparr>flash := \<lparr>w25q_mem = (\<lambda>a. 0xFF), w25q_ready = True\<rparr>\<rparr>)) r"
  by (rule Verify_meets_contract_full_page) (simp_all add: reset_state_def wf_prg_def PAGE_SIZE_def)

end
