(* ===== verification/VerifyLoop.thy ===== *)
theory VerifyLoop
  imports FlashPrg "HOL-Library.While_Combinator"
begin

text \<open>
  The \<open>for\<close> loop of \<open>Verify\<close> written as the loop it is, with
  \<^const>\<open>while_option\<close>: the counter \<open>i\<close> runs from 0 while \<open>i < PAGE_SIZE\<close> and
  the compared bytes agree; the exit value \<open>i\<close> then decides between the early
  \<open>return (adr+i)\<close>, the read past the host's buffer, and the fall-through
  \<open>return (adr+sz)\<close>. Termination is proved with the measure \<open>PAGE_SIZE - i\<close>
  (\<open>measure_while_option_Some\<close>), and the exit state by the loop invariant
  (\<open>while_option_rule\<close>, \<open>while_option_stop\<close>).
\<close>

abbreviation verify_cond :: "u8 list \<Rightarrow> u8 list \<Rightarrow> nat \<Rightarrow> bool" where
  "verify_cond aux buf i \<equiv> i < PAGE_SIZE \<and> i < length buf \<and> aux ! i = buf ! i"

definition verify_for :: "u8 list \<Rightarrow> u8 list \<Rightarrow> nat option" where
  "verify_for aux buf =
     while_option (verify_cond aux buf) Suc 0"

lemma verify_while_Some:
  "\<exists>i. while_option (verify_cond aux buf) Suc j = Some i"
  by (rule measure_while_option_Some [where P = "\<lambda>i. True" and f = "\<lambda>i. PAGE_SIZE - i"]) auto

subsection \<open>Termination and the exit state\<close>

text \<open>
  C25. The comparison loop of \<open>Verify\<close> terminates for every content of
  \<open>aux_buf\<close> and every host buffer, after at most \<open>PAGE_SIZE\<close> iterations.
\<close>

theorem verify_for_terminates:
  "\<exists>i. verify_for aux buf = Some i \<and> i \<le> PAGE_SIZE"
proof -
  obtain i where run: "while_option (verify_cond aux buf) Suc 0 = Some i"
    using verify_while_Some by blast
  have "i \<le> PAGE_SIZE"
    by (rule while_option_rule [where P = "\<lambda>i. i \<le> PAGE_SIZE", OF _ run]) (auto simp: PAGE_SIZE_def)
  with run show ?thesis
    by (simp add: verify_for_def)
qed

text \<open>
  C26. The loop invariant at the exit: when the loop stops at \<open>i\<close>, every byte
  before \<open>i\<close> was compared equal within the host's buffer, and, unless the
  loop ran all \<open>PAGE_SIZE\<close> iterations, byte \<open>i\<close> differs or lies past the
  host's buffer.
\<close>

theorem verify_for_exit_index:
  assumes "verify_for aux buf = Some i"
  shows "i \<le> PAGE_SIZE \<and> (\<forall>j<i. j < length buf \<and> aux ! j = buf ! j) \<and>
         (i < PAGE_SIZE \<longrightarrow> length buf \<le> i \<or> aux ! i \<noteq> buf ! i)"
proof -
  have run: "while_option (verify_cond aux buf) Suc 0 = Some i"
    using assms by (simp add: verify_for_def)
  have inv: "i \<le> PAGE_SIZE \<and> (\<forall>j<i. j < length buf \<and> aux ! j = buf ! j)"
    by (rule while_option_rule [where P = "\<lambda>i. i \<le> PAGE_SIZE \<and> (\<forall>j<i. j < length buf \<and> aux ! j = buf ! j)",
          OF _ run]) (auto simp: less_Suc_eq)
  have "\<not> verify_cond aux buf i"
    by (rule while_option_stop [OF run])
  with inv show ?thesis
    by auto
qed

theorem verify_for_exit_index_witness:
  "verify_for [1, 2] [1, 3] = Some 1 \<and> [1, 2::u8] ! 0 = [1, 3] ! 0 \<and> [1, 2::u8] ! 1 \<noteq> [1, 3] ! 1"
proof -
  have run: "verify_for [1, 2] [1, 3] = Some 1"
    by (simp add: verify_for_def while_option_unfold [of _ _ 0] while_option_unfold [of _ _ "Suc 0"] PAGE_SIZE_def)
  show ?thesis
    using run verify_for_exit_index [OF run] by simp
qed

end
