(* ===== verification/Download.thy ===== *)
theory Download
  imports Host
begin

unbundle bit_operations_syntax

text \<open>
  The host tool's download of an image of whole pages, as Keil performs it
  with this algorithm (the comment at \<open>Init\<close>, line 50): three phases, erase,
  program and verify, each opened by \<open>Init\<close> with its function code (1, 2, 3)
  after a reset of the MCU and closed by \<open>UnInit\<close>. Page \<open>k\<close> of the image lies
  at host address \<open>b + off + k * PAGE_SIZE\<close>, where \<open>b\<close> is the device base the
  host passes to \<open>Init\<close> and \<open>off\<close> a sector-aligned offset. Between phases
  only the flash array survives: the next phase starts from
  \<^const>\<open>reset_state\<close> of the array the last one left.
\<close>

definition page_adr :: "u32 \<Rightarrow> u32 \<Rightarrow> nat \<Rightarrow> u32" where
  "page_adr b off k = b + off + of_nat (k * PAGE_SIZE)"

definition erase_calls :: "u32 \<Rightarrow> u32 \<Rightarrow> nat \<Rightarrow> host_call list" where
  "erase_calls b off n = map (\<lambda>k. Call_EraseSector (page_adr b off k)) [0..<n]"

definition program_calls :: "u32 \<Rightarrow> u32 \<Rightarrow> u8 list list \<Rightarrow> host_call list" where
  "program_calls b off ds =
     map (\<lambda>k. Call_ProgramPage (page_adr b off k) (of_nat (length (ds ! k))) (ds ! k)) [0..<length ds]"

definition verify_calls :: "u32 \<Rightarrow> u32 \<Rightarrow> u8 list list \<Rightarrow> host_call list" where
  "verify_calls b off ds =
     map (\<lambda>k. Call_Verify (page_adr b off k) (of_nat (length (ds ! k))) (ds ! k)) [0..<length ds]"

text \<open>One phase: reset, \<open>Init\<close>, the phase's calls, \<open>UnInit\<close>; the flash array it leaves.\<close>

definition keil_phase ::
  "u32 \<Rightarrow> u32 \<Rightarrow> u32 \<Rightarrow> host_call list \<Rightarrow> flash_mem \<Rightarrow> flash_error + host_ret list \<times> flash_mem" where
  "keil_phase b clk fnc cs m =
     (case run_calls (Call_Init b clk fnc # cs @ [Call_UnInit fnc]) (reset_state m) of
        Inl e \<Rightarrow> Inl e
      | Inr (rs, s) \<Rightarrow> Inr (rs, w25q_mem (flash s)))"

definition keil_download ::
  "u32 \<Rightarrow> u32 \<Rightarrow> u32 \<Rightarrow> u8 list list \<Rightarrow> flash_mem \<Rightarrow>
     flash_error + (host_ret list \<times> host_ret list \<times> host_ret list) \<times> flash_mem" where
  "keil_download b clk off ds m =
     (case keil_phase b clk 1 (erase_calls b off (length ds)) m of
        Inl e \<Rightarrow> Inl e
      | Inr (r1, m1) \<Rightarrow>
          (case keil_phase b clk 2 (program_calls b off ds) m1 of
             Inl e \<Rightarrow> Inl e
           | Inr (r2, m2) \<Rightarrow>
               (case keil_phase b clk 3 (verify_calls b off ds) m2 of
                  Inl e \<Rightarrow> Inl e
                | Inr (r3, m3) \<Rightarrow> Inr ((r1, r2, r3), m3))))"

subsection \<open>Sector and page arithmetic\<close>
lemma sector_of_aligned_iff:
  "sector_of a = a \<longleftrightarrow> unat a mod SECTOR_SIZE = 0"
proof -
  have "sector_of a = a \<longleftrightarrow> unat (sector_of a) = unat a"
    by (rule word_unat_eq_iff)
  also have "\<dots> \<longleftrightarrow> unat a div SECTOR_SIZE * SECTOR_SIZE = unat a"
    by (simp only: unat_sector_of)
  also have "\<dots> \<longleftrightarrow> unat a mod SECTOR_SIZE = 0"
    using div_mult_mod_eq [of "unat a" SECTOR_SIZE] by linarith
  finally show ?thesis .
qed

lemma sector_of_plus_take_bit:
  "sector_of x + take_bit 12 x = x"
proof -
  have "sector_of x AND take_bit 12 x = 0"
    by (rule bit_eqI) (auto simp: sector_of_def mask12_u32 take_bit_eq_mask bit_simps)
  then have "sector_of x + take_bit 12 x = sector_of x OR take_bit 12 x"
    by (rule disjunctive_add_eq_or)
  also have "\<dots> = x"
    by (rule bit_eqI) (auto simp: sector_of_def mask12_u32 take_bit_eq_mask bit_simps)
  finally show ?thesis .
qed

lemma sector_of_add_aligned:
  assumes "sector_of off = off"
  shows "sector_of (off + z) = off + sector_of z"
proof -
  have off: "take_bit 12 off = 0"
    using sector_of_plus_take_bit [of off] assms by simp
  have uoff: "take_bit 12 (unat off) = 0"
    using off by (metis unsigned_take_bit_eq unsigned_0)
  have "unat (take_bit 12 (off + z)) = take_bit 12 ((unat off + unat z) mod 2 ^ 32)"
    by (simp add: unsigned_take_bit_eq unat_word_ariths(1))
  also have "\<dots> = take_bit 12 (unat off + unat z)"
    by (simp add: take_bit_eq_mod mod_mod_cancel)
  also have "\<dots> = take_bit 12 (take_bit 12 (unat off) + take_bit 12 (unat z))"
    by (simp only: take_bit_add)
  also have "\<dots> = unat (take_bit 12 z)"
    by (simp add: uoff unsigned_take_bit_eq)
  finally have tb: "take_bit 12 (off + z) = take_bit 12 z"
    by (simp add: word_unat_eq_iff)
  have "sector_of (off + z) = off + z - take_bit 12 (off + z)"
    using sector_of_plus_take_bit [of "off + z"] by (simp add: eq_diff_eq)
  also have "\<dots> = off + (z - take_bit 12 z)"
    by (simp add: tb)
  also have "z - take_bit 12 z = sector_of z"
    using sector_of_plus_take_bit [of z] by (simp add: diff_eq_eq)
  finally show ?thesis .
qed

lemma div_eq_iff_bounds:
  "0 < (p::nat) \<Longrightarrow> r div p = k \<longleftrightarrow> k * p \<le> r \<and> r < k * p + p"
proof -
  assume p: "0 < p"
  have "r div p = k \<longleftrightarrow> k \<le> r div p \<and> r div p < Suc k"
    by auto
  also have "\<dots> \<longleftrightarrow> k * p \<le> r \<and> r < Suc k * p"
    using p by (simp add: less_eq_div_iff_mult_less_eq div_less_iff_less_mult)
  finally show ?thesis
    by (simp add: add.commute)
qed

lemma unat_page_base:
  "k * PAGE_SIZE < 2 ^ 32 \<Longrightarrow> unat (of_nat (k * PAGE_SIZE) :: u32) = k * PAGE_SIZE"
  by (rule unat_of_nat_below) simp

lemma page_sector_iff:
  assumes al: "sector_of off = off" and k: "k * PAGE_SIZE < 2 ^ 32"
  shows "sector_of y = sector_of (off + of_nat (k * PAGE_SIZE)) \<longleftrightarrow> unat (y - off) div PAGE_SIZE = k"
proof -
  have y: "y = off + (y - off)"
    by simp
  have "sector_of (of_nat (k * PAGE_SIZE) :: u32) = of_nat (k * PAGE_SIZE)"
    using unat_page_base [OF k] by (simp add: sector_of_aligned_iff PAGE_SIZE_def SECTOR_SIZE_def)
  then have "sector_of y = sector_of (off + of_nat (k * PAGE_SIZE)) \<longleftrightarrow>
      sector_of (y - off) = of_nat (k * PAGE_SIZE)"
    using sector_of_add_aligned [OF al, of "y - off"] sector_of_add_aligned [OF al, of "of_nat (k * PAGE_SIZE)"]
    by (metis y add_left_cancel)
  also have "\<dots> \<longleftrightarrow> unat (y - off) div PAGE_SIZE * PAGE_SIZE = k * PAGE_SIZE"
    using unat_page_base [OF k] by (simp add: word_unat_eq_iff unat_sector_of PAGE_SIZE_def SECTOR_SIZE_def)
  also have "\<dots> \<longleftrightarrow> unat (y - off) div PAGE_SIZE = k"
    by (simp add: PAGE_SIZE_def)
  finally show ?thesis .
qed

lemma unat_sub_page:
  assumes "k * PAGE_SIZE < 2 ^ 32"
  shows "unat (w - of_nat (k * PAGE_SIZE) :: u32) =
    (if k * PAGE_SIZE \<le> unat w then unat w - k * PAGE_SIZE else unat w + 2 ^ 32 - k * PAGE_SIZE)"
  using unat_sub_if' [of w "of_nat (k * PAGE_SIZE) :: u32"] unat_page_base [OF assms] by simp

lemma page_window:
  assumes k: "k * PAGE_SIZE + PAGE_SIZE \<le> 2 ^ 32"
  shows "unat ((y::u32) - (off + of_nat (k * PAGE_SIZE))) < PAGE_SIZE \<longleftrightarrow> unat (y - off) div PAGE_SIZE = k"
    and "unat (y - off) div PAGE_SIZE = k \<Longrightarrow>
           unat (y - (off + of_nat (k * PAGE_SIZE))) = unat (y - off) mod PAGE_SIZE"
proof -
  have eq: "y - (off + of_nat (k * PAGE_SIZE)) = (y - off) - of_nat (k * PAGE_SIZE)"
    by simp
  have kl: "k * PAGE_SIZE < 2 ^ 32"
    using k by (simp add: PAGE_SIZE_def)
  have u: "unat (y - (off + of_nat (k * PAGE_SIZE))) =
      (if k * PAGE_SIZE \<le> unat (y - off) then unat (y - off) - k * PAGE_SIZE
       else unat (y - off) + 2 ^ 32 - k * PAGE_SIZE)"
    by (subst eq) (rule unat_sub_page [OF kl])
  have p: "0 < PAGE_SIZE"
    by (simp add: PAGE_SIZE_def)
  have d: "unat (y - off) div PAGE_SIZE = k \<longleftrightarrow>
      k * PAGE_SIZE \<le> unat (y - off) \<and> unat (y - off) < k * PAGE_SIZE + PAGE_SIZE"
    by (rule div_eq_iff_bounds [OF p])
  show "unat (y - (off + of_nat (k * PAGE_SIZE))) < PAGE_SIZE \<longleftrightarrow> unat (y - off) div PAGE_SIZE = k"
  proof (cases "k * PAGE_SIZE \<le> unat (y - off)")
    case True
    then have "unat (y - (off + of_nat (k * PAGE_SIZE))) = unat (y - off) - k * PAGE_SIZE"
      using u by simp
    then show ?thesis
      using d True by arith
  next
    case False
    then have "unat (y - (off + of_nat (k * PAGE_SIZE))) = unat (y - off) + 2 ^ 32 - k * PAGE_SIZE"
      using u by simp
    then show ?thesis
      using d False k by arith
  qed
  show "unat (y - off) div PAGE_SIZE = k \<Longrightarrow>
      unat (y - (off + of_nat (k * PAGE_SIZE))) = unat (y - off) mod PAGE_SIZE"
    using u d by (simp add: minus_div_mult_eq_mod [symmetric])
qed

subsection \<open>One page per call\<close>

lemma dev_offset_page:
  "base_adr s = b \<Longrightarrow> dev_offset s (page_adr b off k) = off + of_nat (k * PAGE_SIZE)"
  by (simp add: dev_offset_def page_adr_def add.assoc)

lemma EraseSector_page:
  assumes "base_adr s = b" and "w25q_ready (flash s)" and "sector_of off = off"
    and "k * PAGE_SIZE < 2 ^ 32"
  shows "flash_call (Call_EraseSector (page_adr b off k)) s =
    Inr (Ret_Status 0, s\<lparr>flash := (flash s)\<lparr>w25q_mem :=
      (\<lambda>y. if unat (y - off) div PAGE_SIZE = k then 0xFF else w25q_mem (flash s) y)\<rparr>\<rparr>)"
proof -
  have "(\<lambda>y. if sector_of y = sector_of (off + of_nat (k * PAGE_SIZE)) then 0xFF else w25q_mem (flash s) y)
      = (\<lambda>y. if unat (y - off) div PAGE_SIZE = k then 0xFF else w25q_mem (flash s) y)"
    using page_sector_iff [OF assms(3,4)] by auto
  then show ?thesis
    using assms(1,2) by (simp only: flash_call.simps EraseSector_def W25QXX_Erase_Sector_def
        dev_offset_page if_True sum.simps map_sum.simps apfst_conv id_apply)
qed

lemma ProgramPage_page:
  assumes "base_adr s = b" and "w25q_ready (flash s)" and "length d = PAGE_SIZE"
    and "k * PAGE_SIZE + PAGE_SIZE \<le> 2 ^ 32"
  shows "flash_call (Call_ProgramPage (page_adr b off k) 0x1000 d) s =
    Inr (Ret_Status 0, s\<lparr>flash := (flash s)\<lparr>w25q_mem :=
      (\<lambda>y. if unat (y - off) div PAGE_SIZE = k
            then w25q_mem (flash s) y AND d ! (unat (y - off) mod PAGE_SIZE)
            else w25q_mem (flash s) y)\<rparr>\<rparr>)"
proof -
  have sz: "unat (0x1000 :: u32) = PAGE_SIZE"
    by (simp add: PAGE_SIZE_def)
  have "(\<lambda>y. if unat (y - (off + of_nat (k * PAGE_SIZE))) < PAGE_SIZE
            then w25q_mem (flash s) y AND d ! unat (y - (off + of_nat (k * PAGE_SIZE)))
            else w25q_mem (flash s) y)
      = (\<lambda>y. if unat (y - off) div PAGE_SIZE = k
            then w25q_mem (flash s) y AND d ! (unat (y - off) mod PAGE_SIZE)
            else w25q_mem (flash s) y)"
    using page_window [OF assms(4)] by auto
  moreover have "\<not> length d < unat (0x1000 :: u32)"
    using assms(3) by (simp add: PAGE_SIZE_def)
  ultimately show ?thesis
    using assms(1,2) by (simp only: flash_call.simps ProgramPage_def W25QXX_Write_NoCheck_def sz
        dev_offset_page if_True if_False not_True_eq_False sum.simps map_sum.simps apfst_conv id_apply)
qed

lemma Verify_page:
  assumes "base_adr s = b" and "w25q_ready (flash s)" and "wf_prg s" and "length d = PAGE_SIZE"
    and "k * PAGE_SIZE + PAGE_SIZE \<le> 2 ^ 32"
    and same: "\<forall>j<PAGE_SIZE. w25q_mem (flash s) (off + of_nat (k * PAGE_SIZE + j)) = d ! j"
  shows "\<exists>s'. flash_call (Call_Verify (page_adr b off k) 0x1000 d) s =
      Inr (Ret_Addr (page_adr b off (Suc k)), s') \<and> flash s' = flash s"
proof -
  have sz: "unat (0x1000 :: u32) = PAGE_SIZE"
    by (simp add: PAGE_SIZE_def)
  have win: "\<forall>j < unat (0x1000 :: u32).
      w25q_mem (flash s) (dev_offset s (page_adr b off k) + of_nat j) = d ! j"
    using same assms(1) by (simp add: sz dev_offset_page add.assoc PAGE_SIZE_def)
  have "Verify (page_adr b off k) 0x1000 d s =
      Inr (page_adr b off k + 0x1000,
           s\<lparr>aux_buf := d @ drop PAGE_SIZE (aux_buf s)\<rparr>)"
    using Verify_window_eq [OF assms(2,3) _ _ win] sz assms(4) by (simp add: Let_def)
  moreover have "page_adr b off k + 0x1000 = page_adr b off (Suc k)"
    by (simp add: page_adr_def PAGE_SIZE_def algebra_simps)
  ultimately show ?thesis
    by simp
qed

lemma ProgramPage_partial:
  assumes "base_adr s = b" and "w25q_ready (flash s)" and "length d < PAGE_SIZE"
  shows "flash_call (Call_ProgramPage (page_adr b off n) (of_nat (length d)) d) s =
    Inr (Ret_Status 0, s\<lparr>flash := (flash s)\<lparr>w25q_mem :=
      (\<lambda>y. if unat (y - (off + of_nat (n * PAGE_SIZE))) < length d
            then w25q_mem (flash s) y AND d ! unat (y - (off + of_nat (n * PAGE_SIZE)))
            else w25q_mem (flash s) y)\<rparr>\<rparr>)"
proof -
  have sz: "unat (of_nat (length d) :: u32) = length d"
    using assms(3) by (intro unat_of_nat_below) (simp add: PAGE_SIZE_def)
  show ?thesis
    using assms(1,2) by (simp only: flash_call.simps ProgramPage_def W25QXX_Write_NoCheck_def sz
        dev_offset_page if_True if_False not_True_eq_False less_irrefl sum.simps map_sum.simps
        apfst_conv id_apply)
qed

lemma unat_page_offset:
  assumes "j < PAGE_SIZE" and "n * PAGE_SIZE + PAGE_SIZE \<le> 2 ^ 32"
  shows "unat ((off + of_nat (n * PAGE_SIZE + j)) - (off + of_nat (n * PAGE_SIZE)) :: u32) = j"
proof -
  have "(off + of_nat (n * PAGE_SIZE + j)) - (off + of_nat (n * PAGE_SIZE)) = (of_nat j :: u32)"
    by simp
  moreover have "j < 2 ^ 32"
    using assms(1) by (simp add: PAGE_SIZE_def)
  ultimately show ?thesis
    by (simp add: unat_of_nat_below)
qed

lemma Verify_short_page:
  assumes "w25q_ready (flash s)" and "wf_prg s" and short: "length d < PAGE_SIZE"
    and same: "\<forall>j<length d. w25q_mem (flash s) (dev_offset s adr + of_nat j) = d ! j"
  shows "Verify adr (of_nat (length d)) d s = Inl Host_buf_overread"
proof -
  have sz: "unat (of_nat (length d) :: u32) = length d"
    using short by (intro unat_of_nat_below) (simp add: PAGE_SIZE_def)
  have "find (\<lambda>j. length d \<le> j \<or> aux_buf s ! j \<noteq> d ! j) [length d..<PAGE_SIZE] = Some (length d)"
    using short by (simp add: find_upt_step [of _ "length d"])
  then show ?thesis
    using Verify_window_eq [of s "of_nat (length d)" d adr] assms sz by (simp add: Let_def)
qed

subsection \<open>The three phases\<close>

lemma run_calls_append:
  "run_calls (xs @ ys) s =
     (case run_calls xs s of
        Inl e \<Rightarrow> Inl e
      | Inr (rs, s1) \<Rightarrow>
          (case run_calls ys s1 of Inl e \<Rightarrow> Inl e | Inr (rs', s2) \<Rightarrow> Inr (rs @ rs', s2)))"
  by (induction xs arbitrary: s) (auto split: sum.split prod.split)

lemma run_calls_snoc_Inr:
  assumes "run_calls xs s = Inr (rs, s1)" and "flash_call c s1 = Inr (r, s2)"
  shows "run_calls (xs @ [c]) s = Inr (rs @ [r], s2)"
  using assms by (simp add: run_calls_append)

lemma session_facts:
  "host_reach (Session b fnc) s \<Longrightarrow> base_adr s = b \<and> w25q_ready (flash s) \<and> wf_prg s"
  using host_reach_session_inv [of "Session b fnc" s] by (simp add: session_inv_def)

lemma run_erase_calls:
  assumes reach: "host_reach (Session b fnc) s" and al: "sector_of off = off"
    and fits: "n * PAGE_SIZE \<le> 2 ^ 32"
  shows "\<exists>s'. run_calls (erase_calls b off n) s = Inr (replicate n (Ret_Status 0), s') \<and>
    host_reach (Session b fnc) s' \<and>
    w25q_mem (flash s') = (\<lambda>y. if unat (y - off) div PAGE_SIZE < n then 0xFF else w25q_mem (flash s) y)"
  using fits
proof (induction n)
  case 0
  then show ?case
    using reach by (simp add: erase_calls_def fun_eq_iff)
next
  case (Suc n)
  then obtain s1 where run: "run_calls (erase_calls b off n) s = Inr (replicate n (Ret_Status 0), s1)"
    and reach1: "host_reach (Session b fnc) s1"
    and mem1: "w25q_mem (flash s1) =
      (\<lambda>y. if unat (y - off) div PAGE_SIZE < n then 0xFF else w25q_mem (flash s) y)"
    by (auto simp: PAGE_SIZE_def)
  have k: "n * PAGE_SIZE < 2 ^ 32"
    using Suc.prems by (simp add: PAGE_SIZE_def)
  have f: "base_adr s1 = b" "w25q_ready (flash s1)"
    using session_facts [OF reach1] by simp_all
  note er = EraseSector_page [OF f al k]
  have calls: "erase_calls b off (Suc n) = erase_calls b off n @ [Call_EraseSector (page_adr b off n)]"
    by (simp add: erase_calls_def)
  have reach2: "host_reach (Session b fnc) (s1\<lparr>flash := (flash s1)\<lparr>w25q_mem :=
      (\<lambda>y. if unat (y - off) div PAGE_SIZE = n then 0xFF else w25q_mem (flash s1) y)\<rparr>\<rparr>)"
    by (rule host_reach.operation [OF reach1 _ er]) simp
  show ?case
    using run_calls_snoc_Inr [OF run er] reach2 mem1 calls
    by (auto simp: replicate_append_same fun_eq_iff less_Suc_eq)
qed

lemma run_program_calls:
  assumes reach: "host_reach (Session b fnc) s"
    and pages: "\<forall>d\<in>set ds. length d = PAGE_SIZE" and fits: "length ds * PAGE_SIZE \<le> 2 ^ 32"
    and erased: "\<forall>y. unat (y - off) div PAGE_SIZE < length ds \<longrightarrow> w25q_mem (flash s) y = 0xFF"
    and n: "n \<le> length ds"
  shows "\<exists>s'. run_calls (map (\<lambda>k. Call_ProgramPage (page_adr b off k) 0x1000 (ds ! k)) [0..<n]) s
      = Inr (replicate n (Ret_Status 0), s') \<and> host_reach (Session b fnc) s' \<and>
    w25q_mem (flash s') = (\<lambda>y. if unat (y - off) div PAGE_SIZE < n
                              then ds ! (unat (y - off) div PAGE_SIZE) ! (unat (y - off) mod PAGE_SIZE)
                              else w25q_mem (flash s) y)"
  using n
proof (induction n)
  case 0
  then show ?case
    using reach by (simp add: fun_eq_iff)
next
  case (Suc n)
  then obtain s1 where
    run: "run_calls (map (\<lambda>k. Call_ProgramPage (page_adr b off k) 0x1000 (ds ! k)) [0..<n]) s
      = Inr (replicate n (Ret_Status 0), s1)"
    and reach1: "host_reach (Session b fnc) s1"
    and mem1: "w25q_mem (flash s1) = (\<lambda>y. if unat (y - off) div PAGE_SIZE < n
        then ds ! (unat (y - off) div PAGE_SIZE) ! (unat (y - off) mod PAGE_SIZE)
        else w25q_mem (flash s) y)"
    by auto
  have f: "base_adr s1 = b" "w25q_ready (flash s1)"
    using session_facts [OF reach1] by simp_all
  have len: "length (ds ! n) = PAGE_SIZE"
    using pages Suc.prems by simp
  have k: "n * PAGE_SIZE + PAGE_SIZE \<le> 2 ^ 32"
  proof -
    have "Suc n * PAGE_SIZE \<le> length ds * PAGE_SIZE"
      using Suc.prems by (intro mult_le_mono1)
    then show ?thesis
      using fits by simp
  qed
  note pg = ProgramPage_page [OF f len k, of off]
  have reach2: "host_reach (Session b fnc) (s1\<lparr>flash := (flash s1)\<lparr>w25q_mem :=
      (\<lambda>y. if unat (y - off) div PAGE_SIZE = n
            then w25q_mem (flash s1) y AND ds ! n ! (unat (y - off) mod PAGE_SIZE)
            else w25q_mem (flash s1) y)\<rparr>\<rparr>)"
    by (rule host_reach.operation [OF reach1 _ pg]) simp
  have calls: "map (\<lambda>k. Call_ProgramPage (page_adr b off k) 0x1000 (ds ! k)) [0..<Suc n] =
      map (\<lambda>k. Call_ProgramPage (page_adr b off k) 0x1000 (ds ! k)) [0..<n] @
      [Call_ProgramPage (page_adr b off n) 0x1000 (ds ! n)]"
    by simp
  have "\<And>y. unat (y - off) div PAGE_SIZE = n \<Longrightarrow> w25q_mem (flash s) y = 0xFF"
    using erased Suc.prems by simp
  then show ?case
    using run_calls_snoc_Inr [OF run pg] reach2 mem1 calls
    by (auto simp: replicate_append_same fun_eq_iff less_Suc_eq)
qed

lemma run_verify_calls:
  assumes reach: "host_reach (Session b fnc) s"
    and pages: "\<forall>d\<in>set ds. length d = PAGE_SIZE" and fits: "length ds * PAGE_SIZE \<le> 2 ^ 32"
    and holds: "\<forall>k<length ds. \<forall>j<PAGE_SIZE. w25q_mem (flash s) (off + of_nat (k * PAGE_SIZE + j)) = ds ! k ! j"
    and n: "n \<le> length ds"
  shows "\<exists>s'. run_calls (map (\<lambda>k. Call_Verify (page_adr b off k) 0x1000 (ds ! k)) [0..<n]) s
      = Inr (map (\<lambda>k. Ret_Addr (page_adr b off (Suc k))) [0..<n], s') \<and>
    host_reach (Session b fnc) s' \<and> flash s' = flash s"
  using n
proof (induction n)
  case 0
  then show ?case
    using reach by simp
next
  case (Suc n)
  then obtain s1 where
    run: "run_calls (map (\<lambda>k. Call_Verify (page_adr b off k) 0x1000 (ds ! k)) [0..<n]) s
      = Inr (map (\<lambda>k. Ret_Addr (page_adr b off (Suc k))) [0..<n], s1)"
    and reach1: "host_reach (Session b fnc) s1" and fl: "flash s1 = flash s"
    by auto
  have f: "base_adr s1 = b" "w25q_ready (flash s1)" "wf_prg s1"
    using session_facts [OF reach1] by simp_all
  have len: "length (ds ! n) = PAGE_SIZE"
    using pages Suc.prems by simp
  have k: "n * PAGE_SIZE + PAGE_SIZE \<le> 2 ^ 32"
  proof -
    have "Suc n * PAGE_SIZE \<le> length ds * PAGE_SIZE"
      using Suc.prems by (intro mult_le_mono1)
    then show ?thesis
      using fits by simp
  qed
  have same: "\<forall>j<PAGE_SIZE. w25q_mem (flash s1) (off + of_nat (n * PAGE_SIZE + j)) = ds ! n ! j"
    using holds Suc.prems fl by simp
  obtain s2 where v: "flash_call (Call_Verify (page_adr b off n) 0x1000 (ds ! n)) s1 =
      Inr (Ret_Addr (page_adr b off (Suc n)), s2)" and fl2: "flash s2 = flash s1"
    using Verify_page [OF f len k same] by blast
  have reach2: "host_reach (Session b fnc) s2"
    by (rule host_reach.operation [OF reach1 _ v]) simp
  show ?case
    using run_calls_snoc_Inr [OF run v] reach2 fl fl2 by simp
qed

lemma page_content:
  assumes "k < length ds" and "j < PAGE_SIZE" and "length ds * PAGE_SIZE \<le> 2 ^ 32"
  shows "unat ((off + of_nat (k * PAGE_SIZE + j)) - off :: u32) div PAGE_SIZE = k"
    and "unat ((off + of_nat (k * PAGE_SIZE + j)) - off :: u32) mod PAGE_SIZE = j"
proof -
  have "k * PAGE_SIZE + j < length ds * PAGE_SIZE"
  proof -
    have "Suc k * PAGE_SIZE \<le> length ds * PAGE_SIZE"
      using assms(1) by (intro mult_le_mono1) simp
    then show ?thesis
      using assms(2) by simp
  qed
  then have u: "unat ((off + of_nat (k * PAGE_SIZE + j)) - off :: u32) = k * PAGE_SIZE + j"
    using assms(3) by (simp only: add_diff_cancel_left') (rule unat_of_nat_below, simp)
  show "unat ((off + of_nat (k * PAGE_SIZE + j)) - off :: u32) div PAGE_SIZE = k"
    using assms(2) by (simp only: u) simp
  show "unat ((off + of_nat (k * PAGE_SIZE + j)) - off :: u32) mod PAGE_SIZE = j"
    using assms(2) by (simp only: u) simp
qed

lemma calls_full:
  assumes "\<forall>d\<in>set ds. length d = PAGE_SIZE"
  shows "program_calls b off ds = map (\<lambda>k. Call_ProgramPage (page_adr b off k) 0x1000 (ds ! k)) [0..<length ds]"
    and "verify_calls b off ds = map (\<lambda>k. Call_Verify (page_adr b off k) 0x1000 (ds ! k)) [0..<length ds]"
  using assms by (auto simp: program_calls_def verify_calls_def PAGE_SIZE_def)

lemma calls_snoc:
  assumes "\<forall>p\<in>set ps. length p = PAGE_SIZE"
  shows "program_calls b off (ps @ [d]) =
      map (\<lambda>k. Call_ProgramPage (page_adr b off k) 0x1000 (ps ! k)) [0..<length ps] @
      [Call_ProgramPage (page_adr b off (length ps)) (of_nat (length d)) d]"
    and "verify_calls b off (ps @ [d]) =
      map (\<lambda>k. Call_Verify (page_adr b off k) 0x1000 (ps ! k)) [0..<length ps] @
      [Call_Verify (page_adr b off (length ps)) (of_nat (length d)) d]"
  using assms by (auto simp: program_calls_def verify_calls_def PAGE_SIZE_def nth_append)

lemma run_calls_snoc_Inl:
  assumes "run_calls xs s = Inr (rs, s1)" and "flash_call c s1 = Inl e"
  shows "run_calls (xs @ [c]) s = Inl e"
  using assms by (simp add: run_calls_append)

lemma keil_phase_Inl:
  assumes "run_calls cs (snd (Init b clk fnc (reset_state m))) = Inl e"
  shows "keil_phase b clk fnc cs m = Inl e"
  using assms by (simp add: keil_phase_def run_calls_append Init_def)

lemma keil_phase_Inr:
  assumes "run_calls cs (snd (Init b clk fnc (reset_state m))) = Inr (rs, s')"
  shows "keil_phase b clk fnc cs m = Inr (Ret_Status 0 # rs @ [Ret_Status 0], w25q_mem (flash s'))"
  using assms by (simp add: keil_phase_def run_calls_append Init_def UnInit_def)

lemma Init_reset_mem:
  "w25q_mem (flash (snd (Init b clk fnc (reset_state m)))) = m"
  by (simp add: Init_def reset_state_def W25QXX_Init_def)

subsection \<open>The download round trip\<close>

text \<open>
  C11. Keil's download of an image of whole pages succeeds and leaves the image in
  the flash: for any page-sized data at a sector-aligned offset, fitting the
  32-bit device space, the erase phase and the program phase report status 0
  for every call, every \<open>Verify\<close> of the verify phase reports success
  (\<open>adr + 4096\<close>), and byte \<open>j\<close> of page \<open>k\<close> ends up at device offset
  \<open>off + k * 4096 + j\<close>, whatever the flash held before and whatever base the host
  uses. This composes the controller's offset translation, the chip driver's
  erase and program semantics, the verify loop, and the resets between phases.
\<close>

theorem keil_download_roundtrip:
  assumes al: "sector_of off = off" and pages: "\<forall>d\<in>set ds. length d = PAGE_SIZE"
    and fits: "length ds * PAGE_SIZE \<le> 2 ^ 32"
  shows "\<exists>m'. keil_download b clk off ds m =
     Inr ((Ret_Status 0 # replicate (length ds) (Ret_Status 0) @ [Ret_Status 0],
           Ret_Status 0 # replicate (length ds) (Ret_Status 0) @ [Ret_Status 0],
           Ret_Status 0 # map (\<lambda>k. Ret_Addr (page_adr b off (Suc k))) [0..<length ds] @ [Ret_Status 0]),
          m') \<and>
     (\<forall>k<length ds. \<forall>j<PAGE_SIZE. m' (off + of_nat (k * PAGE_SIZE + j)) = ds ! k ! j)"
proof -
  obtain e1 where run1: "run_calls (erase_calls b off (length ds)) (snd (Init b clk 1 (reset_state m)))
      = Inr (replicate (length ds) (Ret_Status 0), e1)"
    and mem1': "w25q_mem (flash e1) = (\<lambda>y. if unat (y - off) div PAGE_SIZE < length ds then 0xFF
        else w25q_mem (flash (snd (Init b clk 1 (reset_state m)))) y)"
    using run_erase_calls [OF reach_Init al fits] by blast
  let ?m1 = "w25q_mem (flash e1)"
  have mem1: "?m1 = (\<lambda>y. if unat (y - off) div PAGE_SIZE < length ds then 0xFF else m y)"
    using mem1' by (simp only: Init_reset_mem)
  have erased: "\<forall>y. unat (y - off) div PAGE_SIZE < length ds \<longrightarrow>
      w25q_mem (flash (snd (Init b clk 2 (reset_state ?m1)))) y = 0xFF"
    by (simp only: Init_reset_mem mem1) simp
  obtain e2 where run2: "run_calls (program_calls b off ds) (snd (Init b clk 2 (reset_state ?m1)))
      = Inr (replicate (length ds) (Ret_Status 0), e2)"
    and mem2': "w25q_mem (flash e2) = (\<lambda>y. if unat (y - off) div PAGE_SIZE < length ds
        then ds ! (unat (y - off) div PAGE_SIZE) ! (unat (y - off) mod PAGE_SIZE)
        else w25q_mem (flash (snd (Init b clk 2 (reset_state ?m1)))) y)"
    using run_program_calls [OF reach_Init pages fits erased order_refl] unfolding calls_full(1) [OF pages]
    by blast
  let ?m2 = "w25q_mem (flash e2)"
  have holds: "\<forall>k<length ds. \<forall>j<PAGE_SIZE. ?m2 (off + of_nat (k * PAGE_SIZE + j)) = ds ! k ! j"
    using page_content [OF _ _ fits] by (simp add: mem2')
  have holds': "\<forall>k<length ds. \<forall>j<PAGE_SIZE.
      w25q_mem (flash (snd (Init b clk 3 (reset_state ?m2)))) (off + of_nat (k * PAGE_SIZE + j)) = ds ! k ! j"
    using holds by (simp only: Init_reset_mem)
  obtain e3 where run3: "run_calls (verify_calls b off ds) (snd (Init b clk 3 (reset_state ?m2)))
      = Inr (map (\<lambda>k. Ret_Addr (page_adr b off (Suc k))) [0..<length ds], e3)"
    and fl3: "flash e3 = flash (snd (Init b clk 3 (reset_state ?m2)))"
    using run_verify_calls [OF reach_Init pages fits holds' order_refl] unfolding calls_full(2) [OF pages]
    by blast
  have m3: "w25q_mem (flash e3) = ?m2"
    using fl3 by (simp only: Init_reset_mem)
  show ?thesis
    using keil_phase_Inr [OF run1] keil_phase_Inr [OF run2] keil_phase_Inr [OF run3] holds m3
    by (simp add: keil_download_def)
qed

theorem keil_download_roundtrip_witness:
  "\<exists>m'. keil_download 0x90000000 0 0 [replicate PAGE_SIZE 0x5A] (\<lambda>a. 0) =
     Inr (([Ret_Status 0, Ret_Status 0, Ret_Status 0], [Ret_Status 0, Ret_Status 0, Ret_Status 0],
           [Ret_Status 0, Ret_Addr 0x90001000, Ret_Status 0]), m') \<and> m' 0x10 = 0x5A"
proof -
  have al: "sector_of 0 = 0"
    by (simp add: sector_of_def)
  have pages: "\<forall>d\<in>set [replicate PAGE_SIZE (0x5A::u8)]. length d = PAGE_SIZE"
    by simp
  have fits: "length [replicate PAGE_SIZE (0x5A::u8)] * PAGE_SIZE \<le> 2 ^ 32"
    by (simp add: PAGE_SIZE_def)
  obtain m' where run: "keil_download 0x90000000 0 0 [replicate PAGE_SIZE 0x5A] (\<lambda>a. 0) =
      Inr ((Ret_Status 0 # replicate (length [replicate PAGE_SIZE (0x5A::u8)]) (Ret_Status 0) @ [Ret_Status 0],
            Ret_Status 0 # replicate (length [replicate PAGE_SIZE (0x5A::u8)]) (Ret_Status 0) @ [Ret_Status 0],
            Ret_Status 0 # map (\<lambda>k. Ret_Addr (page_adr 0x90000000 0 (Suc k)))
              [0..<length [replicate PAGE_SIZE (0x5A::u8)]] @ [Ret_Status 0]), m')"
    and img: "\<forall>k<length [replicate PAGE_SIZE (0x5A::u8)]. \<forall>j<PAGE_SIZE.
      m' (0 + of_nat (k * PAGE_SIZE + j)) = [replicate PAGE_SIZE (0x5A::u8)] ! k ! j"
    using keil_download_roundtrip [OF al pages fits, of "0x90000000" 0 "\<lambda>a. 0"] by blast
  have "m' (0 + of_nat (0 * PAGE_SIZE + 16)) = [replicate PAGE_SIZE (0x5A::u8)] ! 0 ! 16"
    using img [rule_format, of 0 16] by (simp add: PAGE_SIZE_def)
  then have byte: "m' 0x10 = 0x5A"
    by (simp add: PAGE_SIZE_def)
  have "page_adr 0x90000000 0 (Suc 0) = 0x90001000"
    by (simp add: page_adr_def PAGE_SIZE_def)
  with run byte show ?thesis
    by simp
qed

lemma run_program_calls_partial:
  assumes reach: "host_reach (Session b fnc) s" and pages: "\<forall>p\<in>set ps. length p = PAGE_SIZE"
    and short: "length d < PAGE_SIZE" and fits: "Suc (length ps) * PAGE_SIZE \<le> 2 ^ 32"
    and erased: "\<forall>y. unat (y - off) div PAGE_SIZE < Suc (length ps) \<longrightarrow> w25q_mem (flash s) y = 0xFF"
  shows "\<exists>s'. run_calls (program_calls b off (ps @ [d])) s =
      Inr (replicate (length ps) (Ret_Status 0) @ [Ret_Status 0], s') \<and>
    (\<forall>k<length ps. \<forall>j<PAGE_SIZE. w25q_mem (flash s') (off + of_nat (k * PAGE_SIZE + j)) = ps ! k ! j) \<and>
    (\<forall>j<length d. w25q_mem (flash s') (off + of_nat (length ps * PAGE_SIZE + j)) = d ! j)"
proof -
  let ?n = "length ps"
  have fits_ps: "length ps * PAGE_SIZE \<le> 2 ^ 32" and fits_n: "?n * PAGE_SIZE + PAGE_SIZE \<le> 2 ^ 32"
    and fits1: "length (ps @ [d]) * PAGE_SIZE \<le> 2 ^ 32"
    using fits by simp_all
  have erased_ps: "\<forall>y. unat (y - off) div PAGE_SIZE < length ps \<longrightarrow> w25q_mem (flash s) y = 0xFF"
    using erased by simp
  obtain s1 where run1: "run_calls (map (\<lambda>k. Call_ProgramPage (page_adr b off k) 0x1000 (ps ! k)) [0..<?n]) s
      = Inr (replicate ?n (Ret_Status 0), s1)"
    and reach1: "host_reach (Session b fnc) s1"
    and mem1: "w25q_mem (flash s1) = (\<lambda>y. if unat (y - off) div PAGE_SIZE < ?n
        then ps ! (unat (y - off) div PAGE_SIZE) ! (unat (y - off) mod PAGE_SIZE) else w25q_mem (flash s) y)"
    using run_program_calls [OF reach pages fits_ps erased_ps order_refl] by blast
  have f1: "base_adr s1 = b" "w25q_ready (flash s1)"
    using session_facts [OF reach1] by simp_all
  note pp = ProgramPage_partial [OF f1 short, of off ?n]
  let ?s2 = "s1\<lparr>flash := (flash s1)\<lparr>w25q_mem :=
      (\<lambda>y. if unat (y - (off + of_nat (?n * PAGE_SIZE))) < length d
            then w25q_mem (flash s1) y AND d ! unat (y - (off + of_nat (?n * PAGE_SIZE)))
            else w25q_mem (flash s1) y)\<rparr>\<rparr>"
  have run: "run_calls (program_calls b off (ps @ [d])) s = Inr (replicate ?n (Ret_Status 0) @ [Ret_Status 0], ?s2)"
    unfolding calls_snoc(1) [OF pages] by (rule run_calls_snoc_Inr [OF run1 pp])
  have old: "\<forall>k<?n. \<forall>j<PAGE_SIZE. w25q_mem (flash ?s2) (off + of_nat (k * PAGE_SIZE + j)) = ps ! k ! j"
  proof (intro allI impI)
    fix k j
    assume k: "k < ?n" and j: "j < PAGE_SIZE"
    have dk: "unat ((off + of_nat (k * PAGE_SIZE + j)) - off :: u32) div PAGE_SIZE = k"
      and mk: "unat ((off + of_nat (k * PAGE_SIZE + j)) - off :: u32) mod PAGE_SIZE = j"
      using page_content [OF k j fits_ps] by simp_all
    have "\<not> unat ((off + of_nat (k * PAGE_SIZE + j)) - (off + of_nat (?n * PAGE_SIZE)) :: u32) < PAGE_SIZE"
      using page_window(1) [OF fits_n, of "off + of_nat (k * PAGE_SIZE + j)" off] dk k by simp
    then show "w25q_mem (flash ?s2) (off + of_nat (k * PAGE_SIZE + j)) = ps ! k ! j"
      using short dk mk k mem1 by simp
  qed
  have new: "\<forall>j<length d. w25q_mem (flash ?s2) (off + of_nat (?n * PAGE_SIZE + j)) = d ! j"
  proof (intro allI impI)
    fix j
    assume j: "j < length d"
    then have jP: "j < PAGE_SIZE"
      using short by simp
    have "unat ((off + of_nat (?n * PAGE_SIZE + j)) - off :: u32) div PAGE_SIZE = ?n"
      using page_content [OF _ jP fits1, of ?n] by simp
    then have "w25q_mem (flash s1) (off + of_nat (?n * PAGE_SIZE + j)) = 0xFF"
      using mem1 erased by simp
    then show "w25q_mem (flash ?s2) (off + of_nat (?n * PAGE_SIZE + j)) = d ! j"
      using unat_page_offset [OF jP fits_n, of off] j by simp
  qed
  show ?thesis
    using run old new by blast
qed

lemma run_verify_calls_partial:
  assumes reach: "host_reach (Session b fnc) s" and pages: "\<forall>p\<in>set ps. length p = PAGE_SIZE"
    and short: "length d < PAGE_SIZE" and fits: "Suc (length ps) * PAGE_SIZE \<le> 2 ^ 32"
    and old: "\<forall>k<length ps. \<forall>j<PAGE_SIZE. w25q_mem (flash s) (off + of_nat (k * PAGE_SIZE + j)) = ps ! k ! j"
    and new: "\<forall>j<length d. w25q_mem (flash s) (off + of_nat (length ps * PAGE_SIZE + j)) = d ! j"
  shows "run_calls (verify_calls b off (ps @ [d])) s = Inl Host_buf_overread"
proof -
  let ?n = "length ps"
  have fits_ps: "length ps * PAGE_SIZE \<le> 2 ^ 32"
    using fits by simp
  obtain s1 where run1: "run_calls (map (\<lambda>k. Call_Verify (page_adr b off k) 0x1000 (ps ! k)) [0..<?n]) s
      = Inr (map (\<lambda>k. Ret_Addr (page_adr b off (Suc k))) [0..<?n], s1)"
    and reach1: "host_reach (Session b fnc) s1" and fl: "flash s1 = flash s"
    using run_verify_calls [OF reach pages fits_ps old order_refl] by blast
  have f1: "base_adr s1 = b" "w25q_ready (flash s1)" "wf_prg s1"
    using session_facts [OF reach1] by simp_all
  have same: "\<forall>j<length d. w25q_mem (flash s1) (dev_offset s1 (page_adr b off ?n) + of_nat j) = d ! j"
    using new fl f1(1) by (simp add: dev_offset_page add.assoc)
  have "flash_call (Call_Verify (page_adr b off ?n) (of_nat (length d)) d) s1 = Inl Host_buf_overread"
    using Verify_short_page [OF f1(2,3) short same] by simp
  then show ?thesis
    unfolding calls_snoc(2) [OF pages] by (rule run_calls_snoc_Inl [OF run1])
qed

text \<open>
  C28. The download of an image whose last page is partial (\<open>sz < 4096\<close> bytes,
  the host handing exactly those bytes) goes wrong in the verify phase, after
  the erase and program phases succeed: the verify loop runs on to
  \<open>PAGE_SIZE\<close>, the first \<open>sz\<close> bytes agree, and index \<open>sz\<close> reads past the
  host's data. The round trip of the specification (section 8, program then
  verify returns \<open>addr + size\<close>) thus fails for every page shorter than the
  scratch buffer.
\<close>

theorem keil_download_partial_last_page:
  assumes al: "sector_of off = off" and pages: "\<forall>p\<in>set ps. length p = PAGE_SIZE"
    and short: "length d < PAGE_SIZE" and fits: "Suc (length ps) * PAGE_SIZE \<le> 2 ^ 32"
  shows "keil_download b clk off (ps @ [d]) m = Inl Host_buf_overread"
proof -
  have fits1: "length (ps @ [d]) * PAGE_SIZE \<le> 2 ^ 32"
    using fits by simp
  obtain e1 where run1: "run_calls (erase_calls b off (length (ps @ [d]))) (snd (Init b clk 1 (reset_state m)))
      = Inr (replicate (length (ps @ [d])) (Ret_Status 0), e1)"
    and mem1: "w25q_mem (flash e1) = (\<lambda>y. if unat (y - off) div PAGE_SIZE < length (ps @ [d]) then 0xFF
        else w25q_mem (flash (snd (Init b clk 1 (reset_state m)))) y)"
    using run_erase_calls [OF reach_Init al fits1] by blast
  let ?m1 = "w25q_mem (flash e1)"
  have erased: "\<forall>y. unat (y - off) div PAGE_SIZE < Suc (length ps) \<longrightarrow>
      w25q_mem (flash (snd (Init b clk 2 (reset_state ?m1)))) y = 0xFF"
    by (simp add: Init_reset_mem mem1)
  obtain e2 where run2: "run_calls (program_calls b off (ps @ [d])) (snd (Init b clk 2 (reset_state ?m1)))
      = Inr (replicate (length ps) (Ret_Status 0) @ [Ret_Status 0], e2)"
    and old: "\<forall>k<length ps. \<forall>j<PAGE_SIZE. w25q_mem (flash e2) (off + of_nat (k * PAGE_SIZE + j)) = ps ! k ! j"
    and new: "\<forall>j<length d. w25q_mem (flash e2) (off + of_nat (length ps * PAGE_SIZE + j)) = d ! j"
    using run_program_calls_partial [OF reach_Init pages short fits erased] by blast
  let ?s3 = "snd (Init b clk 3 (reset_state (w25q_mem (flash e2))))"
  have run3: "run_calls (verify_calls b off (ps @ [d])) ?s3 = Inl Host_buf_overread"
    by (rule run_verify_calls_partial [OF reach_Init pages short fits])
       (use old new in \<open>simp_all only: Init_reset_mem\<close>)
  show ?thesis
    using keil_phase_Inr [OF run1] keil_phase_Inr [OF run2] keil_phase_Inl [OF run3]
    by (simp add: keil_download_def)
qed

theorem keil_download_partial_last_page_witness:
  "keil_download 0x90000000 0 0 [[0x5A]] (\<lambda>a. 0) = Inl Host_buf_overread"
proof -
  have al: "sector_of 0 = 0"
    by (simp add: sector_of_def)
  have "keil_download 0x90000000 0 0 ([] @ [[0x5A]]) (\<lambda>a. 0) = Inl Host_buf_overread"
    by (rule keil_download_partial_last_page [OF al]) (simp_all add: PAGE_SIZE_def)
  then show ?thesis
    by simp
qed

end
