(* ===== verification/Spec2Isabelle.thy ===== *)
theory Spec2Isabelle
  imports Contract VerifyLoop Download
begin

text \<open>
  \<^bold>\<open>A verification model of the STM32H743 / W25Q256 Keil flash algorithm.\<close>

  \<^bold>\<open>The program.\<close> The repository is one C file,
  \<open>src/STM32H743_W25Q256/FlashPrg.c\<close>: the entry points a host tool (Keil
  uVision) calls to erase, program and verify a W25Q256 serial NOR flash behind
  the QSPI interface of an STM32H743. It keeps two globals, the host's base
  address \<open>base_adr\<close> and the 4 KiB scratch array \<open>aux_buf\<close>, translates every
  host address to the device offset \<open>adr-base_adr\<close> and calls the chip driver
  \<open>w25qxx.c\<close>, which is not in the repository. The host resets the MCU before
  each \<open>Init\<close> and then calls the other entry points one at a time.

  \<^bold>\<open>Theories and what they model.\<close>
  \<^item> \<open>Prelude\<close>: machine types (\<open>u8\<close>; \<open>u32\<close> for \<open>unsigned long\<close>, 32 bits on
    the Cortex-M7), the error type \<^typ>\<open>flash_error\<close> (undefined C behaviour and
    out-of-contract calls as values), \<open>store_prefix\<close> (the C effect of filling the
    start of a fixed array, with its overflow), the \<open>flash_simps\<close> collection,
    and lemmas on words and on \<^const>\<open>find\<close> over index ranges.
  \<^item> \<open>W25Q\<close>: the chip and its driver, from the specification's capability
    surface: record \<open>w25q\<close> (array by 32-bit offset, QSPI-ready flag),
    \<open>W25QXX_Init\<close>, \<open>W25QXX_Erase_Chip\<close>, \<open>W25QXX_Erase_Sector\<close> (4 KiB sector
    holding the offset, address bits 11..0 ignored, via \<open>sector_of\<close>),
    \<open>W25QXX_Write_NoCheck\<close> (NOR programming: new byte = old AND data) and
    \<open>W25QXX_Read\<close>. Lemmas: sector arithmetic, and erase-write-read returns
    the data.
  \<^item> \<open>FlashPrg\<close>: the controller. Record \<open>prg_state\<close> holds the globals
    (lines 47-48) and the chip; \<open>dev_offset\<close> is \<open>adr-base_adr\<close>; \<open>Init\<close>,
    \<open>UnInit\<close>, \<open>EraseChip\<close>, \<open>EraseSector\<close>, \<open>BlankCheck\<close>, \<open>ProgramPage\<close> and
    \<open>Verify\<close> translate the functions of the same names; the loop of \<open>Verify\<close>
    is \<open>verify_scan\<close> (a \<open>function\<close> terminating by the measure
    \<open>PAGE_SIZE - i\<close>); \<open>wf_prg\<close> says \<open>aux_buf\<close> has \<open>PAGE_SIZE\<close> bytes.
    Claims C1-C10, C12 and C18: \<open>Verify\<close> on every branch (first mismatch,
    page match, the exact success condition of a partial window, the false
    failure from stale bytes, overflow, host over-read, the full description
    of its result over the page, the reused host buffer), its loop against the
    reference search, the offset translation and effects of \<open>EraseSector\<close>
    and \<open>ProgramPage\<close>, and \<open>EraseSector\<close> below the base, which wraps instead
    of failing.
  \<^item> \<open>Host\<close>: the host's calling convention (modelled from the specification):
    datatype \<open>host_call\<close> of entry-point calls, the dispatch \<open>flash_call\<close>,
    sequences \<open>run_calls\<close>, \<open>reset_state\<close> (zeroed globals, unconfigured QSPI,
    flash contents kept) and the inductive \<open>host_reach\<close> of protocol states
    (power-on, reset, \<open>Init\<close>, operations, \<open>UnInit\<close>). Claims C13-C16: in every
    reachable session state the base is the one \<open>Init\<close> stored, the chip is
    ready and \<open>aux_buf\<close> is a page (rule induction through \<open>session_inv\<close>); no
    session call hits an uninitialised chip; calls within the host's buffer
    contract always have a result; calls before \<open>Init\<close> fail.
  \<^item> \<open>HostView\<close>: the abstract specification the host relies on: the linear view
    \<open>host_view\<close> of the flash by host address, \<open>view_program\<close>,
    \<open>view_erase_sector\<close>, the corrected \<open>verify_spec\<close> of the specification
    (sections 4 and 9), and \<open>view_step\<close>, the effect of one session call on the
    view. Claims C21-C23 are functional refinements: \<open>ProgramPage\<close> and
    \<open>EraseSector\<close> act on the view as the abstract operations do, and
    \<open>Verify\<close> computes \<open>verify_spec\<close> exactly when the stale part of
    \<open>aux_buf\<close> agrees with the host's page. C24 lifts this to a simulation: an
    error-free run of session calls changes the view as the fold of
    \<open>view_step\<close> over the calls.
  \<^item> \<open>VerifyLoop\<close>: the \<open>for\<close> loop of \<open>Verify\<close> (lines 146-150) as the loop
    it is: \<open>verify_for\<close> iterates \<open>Suc\<close> from 0 with \<^const>\<open>while_option\<close> while
    \<open>i < PAGE_SIZE\<close> and the bytes agree. C25 proves it terminates within
    \<open>PAGE_SIZE\<close> iterations (\<open>measure_while_option_Some\<close>, measure
    \<open>PAGE_SIZE - i\<close>), C26 the loop invariant at the exit.
  \<^item> \<open>Contract\<close>: the contracts the comment blocks of \<open>FlashPrg.c\<close> document
    (lines 39-45, 64-68, 76-79, 88-92, 101-107, 115-121, 130-136): the status
    convention \<open>decode_status\<close>, the function codes \<open>decode_fnc\<close>, and one
    predicate per entry point over its result and the host's view before and
    after, dispatched by \<open>call_contract\<close>. C27: \<open>Init\<close>, \<open>UnInit\<close>,
    \<open>EraseChip\<close>, \<open>EraseSector\<close> and \<open>ProgramPage\<close> meet their contracts (and
    \<open>Init\<close> accepts undocumented function codes, lemma
    \<open>Init_accepts_undocumented_fnc\<close>); C29: \<open>Verify\<close> meets its contract on
    whole pages.
  \<^item> \<open>Download\<close>: Keil's download of an image, as the comment at \<open>Init\<close>
    (line 50) describes it: three phases (erase, program, verify), each a reset
    of the MCU, \<open>Init\<close> with function code 1, 2 or 3, the phase's calls
    (\<open>erase_calls\<close>, \<open>program_calls\<close>, \<open>verify_calls\<close>, page \<open>k\<close> at host
    address \<open>page_adr b off k = b + off + k * 4096\<close>, each call with the page's
    own size) and \<open>UnInit\<close> (\<open>keil_phase\<close>, \<open>keil_download\<close>); only the flash
    array survives a reset. Lemmas: sector arithmetic on aligned offsets
    (\<open>sector_of_add_aligned\<close> by \<^const>\<open>take_bit\<close>, \<open>page_sector_iff\<close>,
    \<open>page_window\<close>), the effect of one page's erase, program and verify, and
    each phase by induction on the number of pages. C11: the download of whole
    pages succeeds with every status 0 and every verify at \<open>adr + 4096\<close>, and
    leaves the image at the device offsets, for any base, any previous
    contents and any number of pages fitting 32 bits. C28: when the last page
    is partial (the host passing its \<open>sz < 4096\<close> bytes), erase and program
    succeed but the last verify reads past the host's data.
  \<^item> This theory: properties across the components (C17, C19, C20): erase,
    program and verify of a page end to end in a session; programming over a
    byte that is not erased is caught by \<open>Verify\<close> at its address; a chip
    erase verifies blank.

  \<^bold>\<open>Findings.\<close> The verify loop always compares \<open>PAGE_SIZE\<close> bytes: for
  \<open>sz < PAGE_SIZE\<close> it compares stale \<open>aux_buf\<close> bytes and reports a failure
  past \<open>adr + sz\<close> (C3, C4, C8; invisible when the host reuses its buffer, C18),
  or reads past a host buffer of \<open>sz\<close> bytes (C6), which a whole download with a
  partial last page reaches (C28); \<open>sz > PAGE_SIZE\<close> overflows \<open>aux_buf\<close> (C5);
  an address below the base wraps instead of failing (C12). Against its
  comments and the specification: \<open>Init\<close> accepts any function code and
  ignores the clock frequency; \<open>BlankCheck\<close> never reports a blank block; the
  round trip of the specification's section 8 holds only after an erase (C19)
  and for whole pages (C11 against C28).

  \<^bold>\<open>Bounds.\<close> No fuel is needed: the only loop is bounded by \<open>PAGE_SIZE\<close>
  (4096) and proved terminating, once as the \<open>function\<close> \<open>verify_scan\<close> and
  once as the \<^const>\<open>while_option\<close> loop \<open>verify_for\<close> (C25). Addresses and
  sizes are 32-bit words, so every address sum wraps as in C; byte indices are
  \<open>nat\<close> below \<open>PAGE_SIZE\<close>. The download theorems C11 and C28 ask the image to
  fit the 32-bit device space (\<open>length ds * 4096 \<le> 2^32\<close>), so that no two
  pages share a sector modulo \<open>2^32\<close>.

  \<^bold>\<open>Not modelled.\<close> Of \<open>FlashPrg.c\<close> itself the license header, the
  \<open>#include\<close> lines (1-35) and the comment above \<open>Verify\<close> about memory-mapped
  compare (lines 138-141, which describes no code of the repository) are not
  translated; every declaration, statement and other documenting comment block
  has a definition. The bring-up routines \<open>Stm32_Clock_Init\<close>, \<open>delay_init\<close>,
  \<open>uart_init\<close> and \<open>LED_Init\<close> that \<open>Init\<close> calls (lines 53-56) are not in the
  repository and change no state the algorithm reads, so \<open>Init\<close> models only
  their order-independent outcome, the call of \<open>W25QXX_Init\<close>. The QSPI driver
  (\<open>qspi.c\<close>) is not in the repository and is reached only through the chip
  driver; its configured state is the flag \<open>w25q_ready\<close>. Inside the driver,
  the QSPI command encoding, the splitting of writes into 256-byte program
  pages and the busy-waiting are taken as the specification's capability: each
  driver call returns after the hardware operation completed. Chip capacity
  (32 MiB) is not bounded: the driver receives any 32-bit offset.

  \<^bold>\<open>Plan for later work.\<close> A bound on the chip's 32 MiB capacity in
  \<open>W25Q\<close>, once the driver's behaviour on offsets beyond it is known (the
  driver is not in the repository); the download with a host buffer longer than
  the page data (Keil's RAM buffer), whose verify then depends on the stale
  bytes of C4 and C18.
\<close>

section \<open>Properties across the components\<close>

lemma verify_scan_self:
  assumes "length xs = PAGE_SIZE"
  shows "verify_scan xs xs 0 = Inr None"
proof -
  have "find (\<lambda>j. length xs \<le> j \<or> xs ! j \<noteq> xs ! j) [0..<PAGE_SIZE] = None"
    using assms by (simp add: find_upt_None_iff)
  then show ?thesis
    by (simp add: verify_scan_find_eq)
qed

text \<open>
  C17. The host's programming sequence works end to end: inside a session, erasing
  the sector at a sector-aligned host address, programming a full page of data
  there and verifying it returns status 0, status 0 and \<open>adr + 4096\<close>. This ties
  the offset translation of \<open>FlashPrg.c\<close> to the chip's erase-then-program
  contract and to the verify loop.
\<close>

theorem erase_program_verify_roundtrip:
  assumes reach: "host_reach (Session b fnc) s"
    and aligned: "sector_of (adr - b) = adr - b" and len: "length data = PAGE_SIZE"
  shows "\<exists>s'. run_calls [Call_EraseSector adr, Call_ProgramPage adr 4096 data, Call_Verify adr 4096 data] s
           = Inr ([Ret_Status 0, Ret_Status 0, Ret_Addr (adr + 4096)], s')"
proof -
  have inv: "base_adr s = b" "w25q_ready (flash s)" "length (aux_buf s) = PAGE_SIZE"
    using host_reach_session_inv [OF reach] by (simp_all add: session_inv_def wf_prg_def)
  let ?off = "adr - b"
  obtain c1 where e1: "W25QXX_Erase_Sector ?off (flash s) = Inr c1"
    using W25QXX_ready(2) [OF inv(2)] by blast
  let ?s1 = "s\<lparr>flash := c1\<rparr>"
  have erase: "flash_call (Call_EraseSector adr) s = Inr (Ret_Status 0, ?s1)"
    using e1 inv by (simp add: EraseSector_def dev_offset_def)
  have ready1: "w25q_ready c1" and er: "erased_region (w25q_mem c1) ?off (unat (4096::u32))"
    using e1 aligned W25QXX_Erase_Sector_erased [OF e1 aligned, of 4096]
    by (auto simp: flash_simps SECTOR_SIZE_def)
  obtain c2 where w: "W25QXX_Write_NoCheck data ?off 4096 c1 = Inr c2"
    and r: "W25QXX_Read ?off 4096 c2 = Inr (take (unat (4096::u32)) data)"
    using W25QXX_program_erased_read [OF ready1 _ er, where buf = data] len
    by (auto simp: PAGE_SIZE_def)
  let ?s2 = "?s1\<lparr>flash := c2\<rparr>"
  have program: "flash_call (Call_ProgramPage adr 4096 data) ?s1 = Inr (Ret_Status 0, ?s2)"
    using w inv by (simp add: ProgramPage_def dev_offset_def)
  have rd: "W25QXX_Read (dev_offset ?s2 adr) 4096 (flash ?s2) = Inr data"
    using r len inv by (simp add: dev_offset_def PAGE_SIZE_def)
  have sp: "store_prefix data (aux_buf ?s2) = Inr data"
    using len inv by (simp add: store_prefix_def)
  have verify: "flash_call (Call_Verify adr 4096 data) ?s2 = Inr (Ret_Addr (adr + 4096), ?s2\<lparr>aux_buf := data\<rparr>)"
    using rd sp verify_scan_self [OF len] by (simp add: Verify_def)
  show ?thesis
    using erase program verify by simp
qed
theorem erase_program_verify_roundtrip_witness:
  "\<exists>s'. run_calls [Call_EraseSector 0x90003000, Call_ProgramPage 0x90003000 4096 (replicate PAGE_SIZE 0x5A),
        Call_Verify 0x90003000 4096 (replicate PAGE_SIZE 0x5A)] (snd (Init 0x90000000 0 2 (reset_state (\<lambda>a. 0))))
     = Inr ([Ret_Status 0, Ret_Status 0, Ret_Addr (0x90003000 + 4096)], s')"
  by (rule erase_program_verify_roundtrip [OF reach_Init]) (simp_all add: sector_of_def)

text \<open>
  C19. The erase-before-program contract is necessary: inside a session, if some
  byte of the page window holds a 0 bit where the host's data has a 1, then
  programming the page still reports success (status 0), but the following
  \<open>Verify\<close> of the page reports the first such address \<open>adr + k\<close>, since NOR
  programming can only clear bits.
\<close>

theorem program_without_erase_fails:
  assumes reach: "host_reach (Session b fnc) s" and len: "length data = PAGE_SIZE"
    and k: "k < PAGE_SIZE"
    and bad: "w25q_mem (flash s) (adr - b + of_nat k) AND data ! k \<noteq> data ! k"
    and good: "\<forall>j<k. w25q_mem (flash s) (adr - b + of_nat j) AND data ! j = data ! j"
  shows "\<exists>s'. run_calls [Call_ProgramPage adr 4096 data, Call_Verify adr 4096 data] s
           = Inr ([Ret_Status 0, Ret_Addr (adr + of_nat k)], s')"
proof -
  have inv: "base_adr s = b" "w25q_ready (flash s)" "length (aux_buf s) = PAGE_SIZE"
    using host_reach_session_inv [OF reach] by (simp_all add: session_inv_def wf_prg_def)
  let ?off = "adr - b"
  let ?s1 = "s\<lparr>flash := (flash s)\<lparr>w25q_mem := (\<lambda>a. if unat (a - ?off) < 4096
                 then w25q_mem (flash s) a AND data ! unat (a - ?off) else w25q_mem (flash s) a)\<rparr>\<rparr>"
  have prog: "flash_call (Call_ProgramPage adr 4096 data) s = Inr (Ret_Status 0, ?s1)"
    using inv len by (simp add: ProgramPage_def W25QXX_Write_NoCheck_def dev_offset_def PAGE_SIZE_def)
  have mem1: "\<And>j. j < PAGE_SIZE \<Longrightarrow>
      w25q_mem (flash ?s1) (dev_offset ?s1 adr + of_nat j) = w25q_mem (flash s) (?off + of_nat j) AND data ! j"
    using inv by (simp add: dev_offset_def unat_of_nat_below PAGE_SIZE_def)
  have "\<exists>s'. Verify adr 4096 data ?s1 = Inr (adr + of_nat k, s')"
  proof (rule Verify_first_mismatch_eq)
    show "w25q_ready (flash ?s1)" and "wf_prg ?s1"
      using inv by (simp_all add: wf_prg_def)
    show "unat (4096 :: u32) \<le> PAGE_SIZE" and "k < unat (4096 :: u32)" and "k < length data"
      using k len by (simp_all add: PAGE_SIZE_def)
    show "w25q_mem (flash ?s1) (dev_offset ?s1 adr + of_nat k) \<noteq> data ! k"
      using mem1 [OF k] bad by simp
    show "\<forall>j<k. w25q_mem (flash ?s1) (dev_offset ?s1 adr + of_nat j) = data ! j"
      using mem1 good k by simp
  qed
  then obtain s' where "Verify adr 4096 data ?s1 = Inr (adr + of_nat k, s')"
    by blast
  then show ?thesis
    using prog by simp
qed

theorem program_without_erase_fails_witness:
  "\<exists>s'. run_calls [Call_ProgramPage 0x90000000 4096 (replicate PAGE_SIZE 0xFF),
                     Call_Verify 0x90000000 4096 (replicate PAGE_SIZE 0xFF)]
           (snd (Init 0x90000000 0 2 (reset_state (\<lambda>a. 0))))
         = Inr ([Ret_Status 0, Ret_Addr 0x90000000], s')"
  using program_without_erase_fails [OF reach_Init [where adr = "0x90000000" and clk = 0 and fnc = 2
        and m = "\<lambda>a. 0"], where k = 0 and data = "replicate PAGE_SIZE 0xFF" and adr = "0x90000000"]
  by (simp add: PAGE_SIZE_def Init_def reset_state_def W25QXX_Init_def)

text \<open>
  C20. \<open>EraseChip\<close> erases the whole array: inside a session, a whole-chip erase
  followed by a verify of any page against \<open>0xFF\<close> bytes returns status 0 and
  \<open>adr + 4096\<close>.
\<close>

theorem erase_chip_blank_verify:
  assumes reach: "host_reach (Session b fnc) s"
  shows "\<exists>s'. run_calls [Call_EraseChip, Call_Verify adr 4096 (replicate PAGE_SIZE 0xFF)] s
           = Inr ([Ret_Status 0, Ret_Addr (adr + 4096)], s')"
proof -
  have inv: "w25q_ready (flash s)" "length (aux_buf s) = PAGE_SIZE"
    using host_reach_session_inv [OF reach] by (simp_all add: session_inv_def wf_prg_def)
  let ?s1 = "s\<lparr>flash := (flash s)\<lparr>w25q_mem := (\<lambda>_. 0xFF)\<rparr>\<rparr>"
  have erase: "flash_call Call_EraseChip s = Inr (Ret_Status 0, ?s1)"
    using inv by (simp add: EraseChip_def W25QXX_Erase_Chip_def)
  have rd: "W25QXX_Read (dev_offset ?s1 adr) 4096 (flash ?s1) = Inr (replicate PAGE_SIZE 0xFF)"
    using inv by (simp add: W25QXX_Read_def PAGE_SIZE_def map_replicate_const)
  have sp: "store_prefix (replicate PAGE_SIZE 0xFF) (aux_buf ?s1) = Inr (replicate PAGE_SIZE 0xFF)"
    using inv by (simp add: store_prefix_def)
  have "flash_call (Call_Verify adr 4096 (replicate PAGE_SIZE 0xFF)) ?s1
        = Inr (Ret_Addr (adr + 4096), ?s1\<lparr>aux_buf := replicate PAGE_SIZE 0xFF\<rparr>)"
    using rd sp verify_scan_self [of "replicate PAGE_SIZE 0xFF"] by (simp add: Verify_def)
  then show ?thesis
    using erase by simp
qed

theorem erase_chip_blank_verify_witness:
  "\<exists>s'. run_calls [Call_EraseChip, Call_Verify 0x90000000 4096 (replicate PAGE_SIZE 0xFF)]
           (snd (Init 0x90000000 0 1 (reset_state (\<lambda>a. 0x12))))
         = Inr ([Ret_Status 0, Ret_Addr (0x90000000 + 4096)], s')"
  by (rule erase_chip_blank_verify [OF reach_Init])
end
